theory Spec2Isabelle
  imports Complex_Main
begin

section \<open>Data model\<close>

text \<open>
  \<^verbatim>\<open>OutfitSuggestion\<close> of the home screen. The two flags are optional in the source
  (\<^verbatim>\<open>isAccepted?: boolean\<close>), so an absent flag is \<open>None\<close> and an explicit
  \<^verbatim>\<open>false\<close> is \<open>Some False\<close>. The field \<^verbatim>\<open>id\<close> is named \<open>id_field\<close>, since
  \<open>id\<close> is the identity function of HOL.
\<close>

record OutfitSuggestion =
  id_field :: string
  imageUri :: string
  title :: string
  subtitle :: string
  handle :: string
  reason :: string
  bgGradient :: "string \<times> string \<times> string"
  isAccepted :: "bool option"
  isRejected :: "bool option"

text \<open>The undo history holds records \<^verbatim>\<open>{ index: number; action: 'left' | 'right' }\<close>.\<close>

datatype swipe_action = ActLeft | ActRight

record history_entry =
  index :: int
  action :: swipe_action

text \<open>
  A callback handed to \<^verbatim>\<open>setTimeout(..., 100)\<close>: the one of \<^verbatim>\<open>onLeft\<close> and
  \<^verbatim>\<open>onRight\<close> runs \<^verbatim>\<open>goNext\<close> and clears the guard, the one of \<^verbatim>\<open>undo\<close> only
  clears the guard. All delays are equal, so pending callbacks fire in the order in which
  they were scheduled.
\<close>

datatype timer = TransitionTimer | UndoTimer

text \<open>
  The state the screen's callbacks read and write: the three \<^verbatim>\<open>useState\<close> cells, the
  ref \<^verbatim>\<open>isProcessingRef.current\<close>, the \<^verbatim>\<open>accepted\<close> array of the persisted store, and
  the pending timeouts. The array index is a JavaScript number and can leave the array
  (\<^verbatim>\<open>goNext\<close> on an empty array gives \<open>-1\<close>), so it is an \<open>int\<close>.
\<close>

record screen =
  outfits :: "OutfitSuggestion list"
  activeIndex :: int
  history :: "history_entry list"
  isProcessing :: bool
  accepted :: "OutfitSuggestion list"
  timers :: "timer list"

section \<open>The persisted collection (todayCollectionStore.ts)\<close>

definition addAccepted :: "OutfitSuggestion \<Rightarrow> OutfitSuggestion list \<Rightarrow> OutfitSuggestion list" where
  "addAccepted outfit cur =
     (if list_ex (\<lambda>x. id_field x = id_field outfit) cur then cur else outfit # cur)"

definition removeAccepted :: "string \<Rightarrow> OutfitSuggestion list \<Rightarrow> OutfitSuggestion list" where
  "removeAccepted i cur = filter (\<lambda>x. id_field x \<noteq> i) cur"

definition clearAll :: "OutfitSuggestion list \<Rightarrow> OutfitSuggestion list" where
  "clearAll cur = []"

datatype store_call = AddAccepted OutfitSuggestion | RemoveAccepted string | ClearAll

fun store_step :: "store_call \<Rightarrow> OutfitSuggestion list \<Rightarrow> OutfitSuggestion list" where
  "store_step (AddAccepted outfit) cur = addAccepted outfit cur"
| "store_step (RemoveAccepted i) cur = removeAccepted i cur"
| "store_step ClearAll cur = clearAll cur"

text \<open>A sequence of calls on the store, the first call first.\<close>

fun store_run :: "store_call list \<Rightarrow> OutfitSuggestion list \<Rightarrow> OutfitSuggestion list" where
  "store_run [] cur = cur"
| "store_run (c # cs) cur = store_run cs (store_step c cur)"

section \<open>The screen's callbacks (HomeScreen)\<close>

text \<open>
  \<^verbatim>\<open>xs[i]\<close> of JavaScript: \<^verbatim>\<open>undefined\<close> (here \<open>None\<close>) outside the array.
\<close>

definition js_index :: "'a list \<Rightarrow> int \<Rightarrow> 'a option" where
  "js_index xs i = (if 0 \<le> i \<and> i < int (length xs) then Some (xs ! nat i) else None)"

text \<open>\<^verbatim>\<open>prev.map((o, idx) => ...)\<close>: a map that also sees the position.\<close>

fun map_idx :: "(int \<Rightarrow> 'a \<Rightarrow> 'b) \<Rightarrow> int \<Rightarrow> 'a list \<Rightarrow> 'b list" where
  "map_idx f k [] = []"
| "map_idx f k (x # xs) = f k x # map_idx f (k + 1) xs"

definition goNext :: "screen \<Rightarrow> screen" where
  "goNext s = s\<lparr>activeIndex := min (activeIndex s + 1) (int (length (outfits s)) - 1)\<rparr>"

text \<open>
  Each callback is re-created by \<^verbatim>\<open>useCallback\<close> when \<^verbatim>\<open>outfits\<close>,
  \<^verbatim>\<open>activeIndex\<close> or \<^verbatim>\<open>history\<close> changes, so the callback of a render reads the
  values of that render's state; the functional updates
  (\<^verbatim>\<open>setOutfits((prev) => ...)\<close>) apply to the same state.
\<close>

definition onLeft :: "screen \<Rightarrow> screen" where
  "onLeft s =
     (if isProcessing s then s
      else case js_index (outfits s) (activeIndex s) of
        None \<Rightarrow> s\<lparr>isProcessing := False\<rparr>
      | Some current \<Rightarrow>
          s\<lparr>outfits :=
               map (\<lambda>out. if id_field out = id_field current
                         then out\<lparr>isRejected := Some True, isAccepted := Some False\<rparr> else out)
                 (outfits s),
            history := history s @ [\<lparr>index = activeIndex s, action = ActLeft\<rparr>],
            isProcessing := True,
            timers := timers s @ [TransitionTimer]\<rparr>)"

definition onRight :: "screen \<Rightarrow> screen" where
  "onRight s =
     (if isProcessing s then s
      else case js_index (outfits s) (activeIndex s) of
        None \<Rightarrow> s\<lparr>isProcessing := False\<rparr>
      | Some current \<Rightarrow>
          s\<lparr>outfits :=
               map (\<lambda>out. if id_field out = id_field current
                         then out\<lparr>isAccepted := Some True, isRejected := Some False\<rparr> else out)
                 (outfits s),
            accepted := addAccepted current (accepted s),
            history := history s @ [\<lparr>index = activeIndex s, action = ActRight\<rparr>],
            isProcessing := True,
            timers := timers s @ [TransitionTimer]\<rparr>)"

definition undo :: "screen \<Rightarrow> screen" where
  "undo s =
     (if history s = [] \<or> isProcessing s then s
      else let lst = last (history s) in
        case js_index (outfits s) (index lst) of
          None \<Rightarrow> s\<lparr>isProcessing := False\<rparr>
        | Some item \<Rightarrow>
            s\<lparr>accepted :=
                 (if action lst = ActRight then removeAccepted (id_field item) (accepted s)
                  else accepted s),
              history := butlast (history s),
              outfits :=
                 map_idx (\<lambda>idx out. if idx = index lst
                                     then out\<lparr>isAccepted := Some False, isRejected := Some False\<rparr>
                                     else out) 0 (outfits s),
              activeIndex := index lst,
              isProcessing := True,
              timers := timers s @ [UndoTimer]\<rparr>)"

text \<open>The \<^verbatim>\<open>onItemPress\<close> handler given to the carousel.\<close>

definition onItemPress :: "int \<Rightarrow> screen \<Rightarrow> screen" where
  "onItemPress i s = (if \<not> isProcessing s then s\<lparr>activeIndex := i\<rparr> else s)"

text \<open>The body of a pending timeout.\<close>

fun fire :: "timer \<Rightarrow> screen \<Rightarrow> screen" where
  "fire TransitionTimer s = (goNext s)\<lparr>isProcessing := False\<rparr>"
| "fire UndoTimer s = s\<lparr>isProcessing := False\<rparr>"

text \<open>The oldest pending timeout fires; with none pending nothing happens.\<close>

definition tick :: "screen \<Rightarrow> screen" where
  "tick s = (case timers s of [] \<Rightarrow> s | t # ts \<Rightarrow> fire t (s\<lparr>timers := ts\<rparr>))"

datatype event = OnLeft | OnRight | Undo | GoNext | ItemPress int | Tick

fun step :: "event \<Rightarrow> screen \<Rightarrow> screen" where
  "step OnLeft s = onLeft s"
| "step OnRight s = onRight s"
| "step Undo s = undo s"
| "step GoNext s = goNext s"
| "step (ItemPress i) s = onItemPress i s"
| "step Tick s = tick s"

text \<open>A sequence of events, the first event first.\<close>

fun run :: "event list \<Rightarrow> screen \<Rightarrow> screen" where
  "run [] s = s"
| "run (e # es) s = run es (step e s)"

text \<open>The state of the first render, over the persisted collection found at start.\<close>

definition init :: "OutfitSuggestion list \<Rightarrow> OutfitSuggestion list \<Rightarrow> screen" where
  "init outs acc =
     \<lparr>outfits = outs, activeIndex = 0, history = [], isProcessing = False,
      accepted = acc, timers = []\<rparr>"

text \<open>
  The suggestions the screen starts from. An entry of \<^verbatim>\<open>mockOutfits\<close> gives no flag;
  its image address is written as \<^verbatim>\<open>img\<close> returns it (\<^verbatim>\<open>w=1200\<close> replaced by
  \<^verbatim>\<open>w=900\<close>).
\<close>

definition mock ::
  "string \<Rightarrow> string \<Rightarrow> string \<Rightarrow> string \<Rightarrow> string \<Rightarrow> string \<Rightarrow> string \<times> string \<times> string
     \<Rightarrow> OutfitSuggestion" where
  "mock i u t st h r g =
     \<lparr>id_field = i, imageUri = u, title = t, subtitle = st, handle = h, reason = r,
      bgGradient = g, isAccepted = None, isRejected = None\<rparr>"

definition mockOutfits :: "OutfitSuggestion list" where
  "mockOutfits =
     [
      mock ''1'' ''https://images.unsplash.com/photo-1520975916090-3105956dac38?w=900&auto=format&fit=crop''
        ''Body language'' ''with maya daryen'' ''@maya.daryen''
        ''Hot day + Casual + Light fabric'' (''#B9B0AC'', ''#C7C0BD'', ''#D8D6D3''),
      mock ''2'' ''https://images.unsplash.com/photo-1509631179647-0177331693ae?w=900&auto=format&fit=crop''
        ''Office Ready'' ''polished silhouette'' ''@workwear.daily''
        ''Work day + Smart + Comfortable'' (''#B7B1B2'', ''#CFC8C9'', ''#EAE6E6''),
      mock ''3'' ''https://images.unsplash.com/photo-1520975732144-442d66dffb6e?w=900&auto=format&fit=crop''
        ''Layered Comfort'' ''transitional fit'' ''@layers.club''
        ''Cool day + Versatile + Layered'' (''#B8B7B4'', ''#D2D1CD'', ''#F0EFEC''),
      mock ''4'' ''https://images.unsplash.com/photo-1520975867722-01286f6abf7d?w=900&auto=format&fit=crop''
        ''Bold Statement'' ''make an impact'' ''@bold.room''
        ''Special + Bold + Confident'' (''#B9B2B8'', ''#D4CFD6'', ''#F1EEF3''),
      mock ''5'' ''https://images.unsplash.com/photo-1520975747456-4097f9c2a5c2?w=900&auto=format&fit=crop''
        ''Evening Elegance'' ''date-night glow'' ''@night.edit''
        ''Evening + Date + Elegant'' (''#B5B2B0'', ''#CDC7C4'', ''#EEEAE7''),
      mock ''6'' ''https://images.unsplash.com/photo-1520975904416-6fd35a5a8e3a?w=900&auto=format&fit=crop''
        ''Summer Breeze'' ''light drape'' ''@summer.set''
        ''Sunny + Casual + Airy'' (''#B8C6D4'', ''#D5E0EA'', ''#F3F6FA''),
      mock ''7'' ''https://images.unsplash.com/photo-1520975833856-63c8c9e98a4a?w=900&auto=format&fit=crop''
        ''Street Clean'' ''quiet luxury'' ''@street.clean''
        ''City + Neutral + Crisp'' (''#B9B7C0'', ''#D7D5DF'', ''#F4F3F7''),
      mock ''8'' ''https://images.unsplash.com/photo-1520975747456-4097f9c2a5c2?w=900&auto=format&fit=crop''
        ''Minimalist Chic'' ''less is more'' ''@studio.line''
        ''Any day + Minimal + Timeless'' (''#BFC7D1'', ''#D7DCE3'', ''#F0F1F3'')
     ]"

section \<open>The arc carousel (ArcCarousel.tsx)\<close>

definition visibleRange :: int where
  "visibleRange = 4"

text \<open>\<^verbatim>\<open>for (let i = start; i <= end; i++) idxs.push(i)\<close>\<close>

function visible_loop :: "int \<Rightarrow> int \<Rightarrow> int list \<Rightarrow> int list" where
  "visible_loop i fin idxs = (if i \<le> fin then visible_loop (i + 1) fin (idxs @ [i]) else idxs)"
  by pat_completeness auto
termination
  by (relation "measure (\<lambda>(i, fin, idxs). nat (fin + 1 - i))") auto

definition visible :: "'a list \<Rightarrow> int \<Rightarrow> int list" where
  "visible items a =
     (let start = max 0 (a - visibleRange);
          fin = min (int (length items) - 1) (a + visibleRange)
      in visible_loop start fin [])"

definition THUMB :: real where
  "THUMB = 52"

definition CENTER :: real where
  "CENTER = 70"

text \<open>
  What the render computes for one thumbnail, but for its place on the arc
  (\<^verbatim>\<open>pos(slot)\<close>, sines and cosines of floating-point angles). \<open>thumb_size\<close> is
  \<^verbatim>\<open>size\<close>, \<open>dst\<close> is \<^verbatim>\<open>dist\<close>, \<open>ring\<close> says whether the accent ring is drawn.
\<close>

record thumb =
  realIndex :: int
  thumb_size :: real
  opacity :: real
  ring :: bool

definition opacity_of :: "int \<Rightarrow> real" where
  "opacity_of dst =
     (if dst = 0 then 1 else if dst = 1 then 0.75 else if dst = 2 then 0.55 else 0.35)"

definition render_thumb :: "int \<Rightarrow> int \<Rightarrow> thumb" where
  "render_thumb a ri =
     (let isActive = (ri = a);
          sz = (if isActive then CENTER else THUMB);
          dst = \<bar>ri - a\<bar>
      in \<lparr>realIndex = ri, thumb_size = sz, opacity = opacity_of dst, ring = isActive\<rparr>)"

definition ArcCarousel :: "'a list \<Rightarrow> int \<Rightarrow> thumb list" where
  "ArcCarousel items a = map (render_thumb a) (visible items a)"

section \<open>JavaScript numbers\<close>

text \<open>
  A JavaScript number is a binary64 value: a finite one is a rational, beside the two
  infinities and \<^verbatim>\<open>NaN\<close>. The zero has one sign here; no comparison tells \<open>-0\<close> from \<open>0\<close>.
\<close>

datatype number = Finite rat | PosInf | NegInf | NaN

text \<open>The position of the leading bit of a positive integer.\<close>

function log2n :: "int \<Rightarrow> int" where
  "log2n n = (if n < 2 then 0 else 1 + log2n (n div 2))"
  by pat_completeness auto
termination
  by (relation "measure nat") auto

text \<open>
  The exponent \<open>e\<close> of a positive rational \<open>a\<close>, with \<open>2 ^ e \<le> a < 2 ^ (e + 1)\<close>: the
  difference of the leading bits of numerator and denominator, or one less.
\<close>

definition ilog2 :: "rat \<Rightarrow> int" where
  "ilog2 a =
     (let (p, q) = quotient_of a;
          d = log2n p - log2n q
      in if power_int 2 d \<le> a then d else d - 1)"

text \<open>The nearest integer, the even one of two that are equally near.\<close>

definition round_half_even :: "rat \<Rightarrow> int" where
  "round_half_even q =
     (let f = \<lfloor>q\<rfloor>; r = q - of_int f
      in if r < 1 / 2 then f else if 1 / 2 < r then f + 1 else if even f then f else f + 1)"

text \<open>
  Rounding to binary64, to nearest and ties to even: 53 significant bits, the exponent
  not below \<open>-1022\<close> (below it the spacing stays \<open>2 ^ - 1074\<close>), and an infinity for what
  rounds to \<open>2 ^ 1024\<close> or more.
\<close>

definition round64 :: "rat \<Rightarrow> number" where
  "round64 x =
     (if x = 0 then Finite 0
      else let a = \<bar>x\<bar>;
               e = max (ilog2 a) (- 1022);
               u = power_int 2 (e - 52);
               r = of_int (round_half_even (a / u)) * u
           in if 2 ^ 1024 \<le> r then (if 0 < x then PosInf else NegInf)
              else Finite (if 0 < x then r else - r))"

text \<open>A decimal literal of the source denotes the binary64 value nearest to it.\<close>

definition lit :: "rat \<Rightarrow> number" where
  "lit x = round64 x"

fun js_neg :: "number \<Rightarrow> number" where
  "js_neg (Finite x) = Finite (- x)"
| "js_neg PosInf = NegInf"
| "js_neg NegInf = PosInf"
| "js_neg NaN = NaN"

text \<open>\<^verbatim>\<open>a < b\<close>: false as soon as one side is \<^verbatim>\<open>NaN\<close>.\<close>

fun js_lt :: "number \<Rightarrow> number \<Rightarrow> bool" where
  "js_lt NaN b = False"
| "js_lt a NaN = False"
| "js_lt (Finite x) (Finite y) = (x < y)"
| "js_lt (Finite x) PosInf = True"
| "js_lt (Finite x) NegInf = False"
| "js_lt NegInf NegInf = False"
| "js_lt NegInf b = True"
| "js_lt PosInf b = False"

text \<open>\<^verbatim>\<open>a > b\<close>\<close>

definition js_gt :: "number \<Rightarrow> number \<Rightarrow> bool" where
  "js_gt a b = js_lt b a"

text \<open>\<^verbatim>\<open>a * b\<close>: the exact product, rounded.\<close>

fun js_mul :: "number \<Rightarrow> number \<Rightarrow> number" where
  "js_mul NaN b = NaN"
| "js_mul a NaN = NaN"
| "js_mul (Finite x) (Finite y) = round64 (x * y)"
| "js_mul (Finite x) PosInf = (if x = 0 then NaN else if 0 < x then PosInf else NegInf)"
| "js_mul (Finite x) NegInf = (if x = 0 then NaN else if 0 < x then NegInf else PosInf)"
| "js_mul PosInf (Finite y) = (if y = 0 then NaN else if 0 < y then PosInf else NegInf)"
| "js_mul NegInf (Finite y) = (if y = 0 then NaN else if 0 < y then NegInf else PosInf)"
| "js_mul PosInf PosInf = PosInf"
| "js_mul PosInf NegInf = NegInf"
| "js_mul NegInf PosInf = NegInf"
| "js_mul NegInf NegInf = PosInf"

section \<open>The animations of React Native, as far as the card starts them\<close>

text \<open>
  The card animates four values. An animation is a timing to a value within a duration,
  or a spring to a value; of the configuration of a spring only the keys it defines
  matter here.
\<close>

datatype animated_value = TranslateX | TranslateY | LikeOpacity | NopeOpacity

datatype spring_key = Stiffness | Damping | Mass | Bounciness | Speed | Tension | Friction

datatype animation =
  Timing animated_value number nat
| Spring animated_value number "spring_key list"

datatype error = InvariantViolation

text \<open>
  The library is no part of the repository. Its \<^verbatim>\<open>SpringAnimation\<close>, built when a spring
  is started, refuses a configuration that mixes its three ways of describing a spring
  (\<^verbatim>\<open>You can define one of bounciness/speed, tension/friction, or
  stiffness/damping/mass, but not more than one\<close>): with one of \<^verbatim>\<open>stiffness\<close>,
  \<^verbatim>\<open>damping\<close>, \<^verbatim>\<open>mass\<close> defined none of the other four keys may be, and with
  \<^verbatim>\<open>bounciness\<close> or \<^verbatim>\<open>speed\<close> defined neither \<^verbatim>\<open>tension\<close> nor \<^verbatim>\<open>friction\<close>.
\<close>

definition spring_config_ok :: "spring_key list \<Rightarrow> bool" where
  "spring_config_ok ks =
     (if Stiffness \<in> set ks \<or> Damping \<in> set ks \<or> Mass \<in> set ks
      then Bounciness \<notin> set ks \<and> Speed \<notin> set ks \<and> Tension \<notin> set ks \<and> Friction \<notin> set ks
      else if Bounciness \<in> set ks \<or> Speed \<in> set ks
      then Tension \<notin> set ks \<and> Friction \<notin> set ks
      else True)"

fun can_start :: "animation \<Rightarrow> bool" where
  "can_start (Timing v x d) = True"
| "can_start (Spring v x ks) = spring_config_ok ks"

text \<open>
  \<^verbatim>\<open>Animated.parallel(...).start\<close> starts its animations in their order. The first one
  that cannot be built raises, and the later ones are not started: the result is the
  animations started and the error, if any.
\<close>

fun start_each :: "animation list \<Rightarrow> animation list \<times> error option" where
  "start_each [] = ([], None)"
| "start_each (a # as) =
     (if can_start a
      then (case start_each as of (bs, e) \<Rightarrow> (a # bs, e))
      else ([], Some InvariantViolation))"

datatype callback = HandleSwipeLeft | HandleSwipeRight

text \<open>
  What a handler of the gesture leaves behind: the animations it started, the callback
  that the completion handler of \<^verbatim>\<open>start\<close> calls, and the error it raised. A start that
  raises never completes, so no callback is called.
\<close>

record release =
  started :: "animation list"
  completion :: "callback option"
  raised :: "error option"

definition parallel_start :: "animation list \<Rightarrow> callback option \<Rightarrow> release" where
  "parallel_start anims cb =
     (case start_each anims of
        (bs, None) \<Rightarrow> \<lparr>started = bs, completion = cb, raised = None\<rparr>
      | (bs, Some e) \<Rightarrow> \<lparr>started = bs, completion = None, raised = Some e\<rparr>)"

section \<open>The release of the card gesture (SwipeableCard.tsx)\<close>

text \<open>
  \<^verbatim>\<open>SCREEN_WIDTH\<close> comes from the device (\<^verbatim>\<open>Dimensions.get('window')\<close>) and is a
  parameter \<open>w\<close> here.
\<close>

definition SWIPE_THRESHOLD :: "number \<Rightarrow> number" where
  "SWIPE_THRESHOLD w = js_mul w (lit (26 / 100))"

text \<open>
  The release reads \<^verbatim>\<open>gestureState.dx\<close> and \<^verbatim>\<open>gestureState.dy\<close>. The spring back
  gives each of its two springs \<^verbatim>\<open>damping\<close>, \<^verbatim>\<open>stiffness\<close> and \<^verbatim>\<open>tension\<close>.
\<close>

definition onPanResponderRelease :: "number \<Rightarrow> number \<Rightarrow> number \<Rightarrow> release" where
  "onPanResponderRelease w dx dy =
     (let shouldLeft = js_lt dx (js_neg (SWIPE_THRESHOLD w));
          shouldRight = js_gt dx (SWIPE_THRESHOLD w)
      in if shouldLeft
         then parallel_start
                [Timing TranslateX (js_mul (js_neg w) (lit (15 / 10))) 200,
                 Timing TranslateY (js_mul dy (lit (3 / 10))) 200,
                 Timing NopeOpacity (Finite 0) 150]
                (Some HandleSwipeLeft)
         else if shouldRight
         then parallel_start
                [Timing TranslateX (js_mul w (lit (15 / 10))) 200,
                 Timing TranslateY (js_mul dy (lit (3 / 10))) 200,
                 Timing LikeOpacity (Finite 0) 150]
                (Some HandleSwipeRight)
         else parallel_start
                [Spring TranslateX (Finite 0) [Damping, Stiffness, Tension],
                 Spring TranslateY (Finite 0) [Damping, Stiffness, Tension],
                 Timing LikeOpacity (Finite 0) 200,
                 Timing NopeOpacity (Finite 0) 200]
                None)"

text \<open>
  The handler of an interrupted gesture springs back too; its springs have
  \<^verbatim>\<open>damping\<close> and \<^verbatim>\<open>stiffness\<close> only.
\<close>

definition onPanResponderTerminate :: release where
  "onPanResponderTerminate =
     parallel_start
       [Spring TranslateX (Finite 0) [Damping, Stiffness],
        Spring TranslateY (Finite 0) [Damping, Stiffness]]
       None"

section \<open>Vocabulary of the properties\<close>

text \<open>
  The four components a callback may leave alone: the suggestions, the undo history, the
  active index and the persisted collection.
\<close>

definition frame_unchanged :: "screen \<Rightarrow> screen \<Rightarrow> bool" where
  "frame_unchanged s s' =
     (outfits s' = outfits s \<and> history s' = history s \<and> activeIndex s' = activeIndex s \<and>
      accepted s' = accepted s)"

text \<open>A press on a thumbnail passes an index of the array of \<open>n\<close> suggestions.\<close>

fun press_in_range :: "nat \<Rightarrow> event \<Rightarrow> bool" where
  "press_in_range n (ItemPress i) = (0 \<le> i \<and> i < int n)"
| "press_in_range n e = True"

text \<open>
  The active index and every recorded index lie in an array of \<open>n\<close> suggestions.
\<close>

definition in_bounds :: "nat \<Rightarrow> screen \<Rightarrow> bool" where
  "in_bounds n s =
     (length (outfits s) = n \<and> 0 \<le> activeIndex s \<and> activeIndex s < int n \<and>
      list_all (\<lambda>h. 0 \<le> index h \<and> index h < int n) (history s))"

text \<open>
  While the guard is set the active index lies in an array of \<open>n\<close> suggestions, and so
  does every recorded index at any time.
\<close>

definition guard_in_range :: "nat \<Rightarrow> screen \<Rightarrow> bool" where
  "guard_in_range n s =
     (length (outfits s) = n \<and>
      (isProcessing s \<longrightarrow> 0 \<le> activeIndex s \<and> activeIndex s < int n) \<and>
      list_all (\<lambda>h. 0 \<le> index h \<and> index h < int n) (history s))"

text \<open>No suggestion is both accepted and rejected.\<close>

definition flags_exclusive :: "OutfitSuggestion list \<Rightarrow> bool" where
  "flags_exclusive xs =
     list_all (\<lambda>out. \<not> (isAccepted out = Some True \<and> isRejected out = Some True)) xs"

section \<open>Concrete runs\<close>

text \<open>The first suggestion was accepted, the card moved on, and a press on its thumbnail
  brought it back: the active suggestion is already in the collection.\<close>

definition revisited :: screen where
  "revisited = run [OnRight, Tick, ItemPress 0] (init mockOutfits [])"

text \<open>The first suggestion was accepted and the acceptance undone: its flags are both an
  explicit \<^verbatim>\<open>false\<close>, and nothing is pending.\<close>

definition undone_once :: screen where
  "undone_once = run [OnRight, Tick, Undo, Tick] (init mockOutfits [])"

text \<open>A state with the guard clear and nothing pending, whose active index and last
  recorded index are both past the end of the array.\<close>

definition idle_outside :: screen where
  "idle_outside =
     \<lparr>outfits = mockOutfits, activeIndex = 8, history = [\<lparr>index = 8, action = ActLeft\<rparr>],
      isProcessing = False, accepted = [], timers = []\<rparr>"

text \<open>A screen over no suggestion at all, after \<^verbatim>\<open>goNext\<close>: the active index is \<open>-1\<close>.\<close>

definition empty_moved :: screen where
  "empty_moved = run [GoNext] (init [] [])"

text \<open>The first card was swiped left and its timeout has not fired yet.\<close>

definition in_flight :: screen where
  "in_flight = run [OnLeft] (init mockOutfits [])"

text \<open>Calls on the store that add a suggestion twice and remove another.\<close>

definition store_session :: "store_call list" where
  "store_session =
     [AddAccepted (mockOutfits ! 0), AddAccepted (mockOutfits ! 1), AddAccepted (mockOutfits ! 0),
      RemoveAccepted ''2'', AddAccepted (mockOutfits ! 2)]"

text \<open>A session that swipes, jumps with the carousel and undoes.\<close>

definition session :: "event list" where
  "session = [OnRight, Tick, OnLeft, Tick, ItemPress 7, OnRight, OnLeft, Tick, GoNext, Undo,
              Tick, Undo, Tick, ItemPress 0, OnLeft, Tick]"

section \<open>Auxiliary facts\<close>

subsection \<open>Reading and mapping arrays\<close>

lemma js_index_Some_iff:
  "js_index xs i = Some x \<longleftrightarrow> 0 \<le> i \<and> i < int (length xs) \<and> xs ! nat i = x"
  by (auto simp: js_index_def)

lemma length_map_idx: "length (map_idx f k xs) = length xs"
  by (induction xs arbitrary: k) simp_all

lemma nth_map_idx: "j < length xs \<Longrightarrow> map_idx f k xs ! j = f (k + int j) (xs ! j)"
proof (induction xs arbitrary: k j)
  case Nil
  then show ?case by simp
next
  case (Cons x xs)
  show ?case
  proof (cases j)
    case 0
    then show ?thesis by simp
  next
    case (Suc m)
    with Cons.prems have "m < length xs" by simp
    from Cons.IH [OF this, of "k + 1"] Suc show ?thesis by (simp add: add.assoc)
  qed
qed

lemma map_idx_update:
  assumes "0 \<le> i" and "i < int (length xs)"
  shows "map_idx (\<lambda>idx out. if idx = i then g out else out) 0 xs = xs[nat i := g (xs ! nat i)]"
proof (rule nth_equalityI)
  show "length (map_idx (\<lambda>idx out. if idx = i then g out else out) 0 xs)
          = length (xs[nat i := g (xs ! nat i)])"
    by (simp add: length_map_idx)
next
  fix j
  assume "j < length (map_idx (\<lambda>idx out. if idx = i then g out else out) 0 xs)"
  then have j: "j < length xs" by (simp add: length_map_idx)
  have "int j = i \<longleftrightarrow> j = nat i" using assms by auto
  with j show "map_idx (\<lambda>idx out. if idx = i then g out else out) 0 xs ! j
          = xs[nat i := g (xs ! nat i)] ! j"
    by (simp add: nth_map_idx nth_list_update)
qed

subsection \<open>The callbacks over pairwise different ids\<close>

lemma map_by_id_update:
  assumes d: "distinct (map id_field xs)" and k: "k < length xs"
  shows "map (\<lambda>out. if id_field out = id_field (xs ! k) then g out else out) xs
           = xs[k := g (xs ! k)]"
proof (rule nth_equalityI)
  show "length (map (\<lambda>out. if id_field out = id_field (xs ! k) then g out else out) xs)
          = length (xs[k := g (xs ! k)])"
    by simp
next
  fix j
  assume "j < length (map (\<lambda>out. if id_field out = id_field (xs ! k) then g out else out) xs)"
  then have j: "j < length xs" by simp
  from d j k have "id_field (xs ! j) = id_field (xs ! k) \<longleftrightarrow> j = k"
    using nth_eq_iff_index_eq [of "map id_field xs" j k] by simp
  with j show "map (\<lambda>out. if id_field out = id_field (xs ! k) then g out else out) xs ! j
          = xs[k := g (xs ! k)] ! j"
    by (auto simp: nth_list_update)
qed

lemma removeAccepted_fresh:
  "\<not> list_ex (\<lambda>x. id_field x = i) cur \<Longrightarrow> removeAccepted i cur = cur"
  by (simp add: removeAccepted_def list_ex_iff filter_id_conv)

lemma undo_after_swipe:
  assumes rng: "0 \<le> a" "a < int (length xs)"
  shows "undo \<lparr>outfits = xs, activeIndex = b, history = h @ [\<lparr>index = a, action = act\<rparr>],
               isProcessing = False, accepted = acc, timers = ts\<rparr>
         = \<lparr>outfits = xs[nat a := (xs ! nat a)\<lparr>isAccepted := Some False, isRejected := Some False\<rparr>],
            activeIndex = a, history = h, isProcessing = True,
            accepted = (if act = ActRight then removeAccepted (id_field (xs ! nat a)) acc else acc),
            timers = ts @ [UndoTimer]\<rparr>"
  using rng by (simp add: undo_def js_index_def map_idx_update)

lemma tick_transition:
  "tick \<lparr>outfits = xs, activeIndex = a, history = h, isProcessing = p, accepted = acc,
         timers = [TransitionTimer]\<rparr>
   = \<lparr>outfits = xs, activeIndex = min (a + 1) (int (length xs) - 1), history = h,
      isProcessing = False, accepted = acc, timers = []\<rparr>"
  by (simp add: tick_def goNext_def)

lemma onLeft_unique_ids:
  assumes "distinct (map id_field xs)" and "0 \<le> a" and "a < int (length xs)"
  shows "onLeft \<lparr>outfits = xs, activeIndex = a, history = h, isProcessing = False,
                 accepted = acc, timers = ts\<rparr>
         = \<lparr>outfits = xs[nat a := (xs ! nat a)\<lparr>isRejected := Some True, isAccepted := Some False\<rparr>],
            activeIndex = a, history = h @ [\<lparr>index = a, action = ActLeft\<rparr>],
            isProcessing = True, accepted = acc, timers = ts @ [TransitionTimer]\<rparr>"
  using assms by (simp add: onLeft_def js_index_def map_by_id_update)

lemma onRight_unique_ids:
  assumes "distinct (map id_field xs)" and "0 \<le> a" and "a < int (length xs)"
  shows "onRight \<lparr>outfits = xs, activeIndex = a, history = h, isProcessing = False,
                 accepted = acc, timers = ts\<rparr>
         = \<lparr>outfits = xs[nat a := (xs ! nat a)\<lparr>isAccepted := Some True, isRejected := Some False\<rparr>],
            activeIndex = a, history = h @ [\<lparr>index = a, action = ActRight\<rparr>],
            isProcessing = True, accepted = addAccepted (xs ! nat a) acc,
            timers = ts @ [TransitionTimer]\<rparr>"
  using assms by (simp add: onRight_def js_index_def map_by_id_update)

subsection \<open>The indices stay in bounds\<close>

lemma goNext_in_bounds: "in_bounds n s \<Longrightarrow> in_bounds n (goNext s)"
  by (auto simp: in_bounds_def goNext_def)

lemma onLeft_in_bounds: "in_bounds n s \<Longrightarrow> in_bounds n (onLeft s)"
  by (auto simp: in_bounds_def onLeft_def split: option.splits)

lemma onRight_in_bounds: "in_bounds n s \<Longrightarrow> in_bounds n (onRight s)"
  by (auto simp: in_bounds_def onRight_def split: option.splits)

lemma list_all_butlast: "list_all P xs \<Longrightarrow> list_all P (butlast xs)"
  by (auto simp: list_all_iff dest: in_set_butlastD)

lemma undo_in_bounds:
  assumes "in_bounds n s"
  shows "in_bounds n (undo s)"
proof (cases "history s = [] \<or> isProcessing s")
  case True
  with assms show ?thesis by (simp add: undo_def)
next
  case False
  then have "last (history s) \<in> set (history s)" by simp
  with assms have lst: "0 \<le> index (last (history s))" "index (last (history s)) < int n"
    by (simp_all add: in_bounds_def list_all_iff)
  from assms have "list_all (\<lambda>h. 0 \<le> index h \<and> index h < int n) (butlast (history s))"
    by (simp add: in_bounds_def list_all_butlast)
  with assms False lst show ?thesis
    by (simp add: in_bounds_def undo_def Let_def length_map_idx split: option.splits)
qed

lemma tick_in_bounds: "in_bounds n s \<Longrightarrow> in_bounds n (tick s)"
proof (cases "timers s")
  case Nil
  then show "in_bounds n s \<Longrightarrow> in_bounds n (tick s)" by (simp add: tick_def)
next
  case (Cons t ts)
  assume "in_bounds n s"
  then have "in_bounds n (s\<lparr>timers := ts\<rparr>)" by (simp add: in_bounds_def)
  then have "in_bounds n (fire t (s\<lparr>timers := ts\<rparr>))"
    by (cases t) (auto simp: in_bounds_def goNext_def)
  with Cons show "in_bounds n (tick s)" by (simp add: tick_def)
qed

lemma step_in_bounds:
  "in_bounds n s \<Longrightarrow> press_in_range n e \<Longrightarrow> in_bounds n (step e s)"
proof (cases e)
  case (ItemPress i)
  assume "in_bounds n s" "press_in_range n e"
  with ItemPress show ?thesis by (simp add: in_bounds_def onItemPress_def)
qed (simp_all add: goNext_in_bounds onLeft_in_bounds onRight_in_bounds undo_in_bounds
      tick_in_bounds)

lemma run_in_bounds:
  "in_bounds n s \<Longrightarrow> list_all (press_in_range n) es \<Longrightarrow> in_bounds n (run es s)"
  by (induction es arbitrary: s) (simp_all add: step_in_bounds)

subsection \<open>The flags stay exclusive\<close>

lemma list_all_map_idx:
  "list_all P xs \<Longrightarrow> (\<And>j x. P x \<Longrightarrow> P (f j x)) \<Longrightarrow> list_all P (map_idx f k xs)"
  by (induction xs arbitrary: k) simp_all

lemma onLeft_flags: "flags_exclusive (outfits s) \<Longrightarrow> flags_exclusive (outfits (onLeft s))"
  by (auto simp: flags_exclusive_def onLeft_def list_all_iff split: option.splits)

lemma onRight_flags: "flags_exclusive (outfits s) \<Longrightarrow> flags_exclusive (outfits (onRight s))"
  by (auto simp: flags_exclusive_def onRight_def list_all_iff split: option.splits)

lemma undo_flags:
  assumes "flags_exclusive (outfits s)"
  shows "flags_exclusive (outfits (undo s))"
proof -
  let ?P = "\<lambda>out. \<not> (isAccepted out = Some True \<and> isRejected out = Some True)"
  let ?f = "\<lambda>idx out. if idx = index (last (history s))
                        then out\<lparr>isAccepted := Some False, isRejected := Some False\<rparr> else out"
  from assms have "list_all ?P (outfits s)" by (simp add: flags_exclusive_def)
  then have "list_all ?P (map_idx ?f 0 (outfits s))"
    by (rule list_all_map_idx) simp
  with assms show ?thesis
    by (simp add: undo_def Let_def flags_exclusive_def split: option.splits)
qed

lemma tick_outfits: "outfits (tick s) = outfits s"
proof (cases "timers s")
  case Nil
  then show ?thesis by (simp add: tick_def)
next
  case (Cons t ts)
  then show ?thesis by (cases t) (simp_all add: tick_def goNext_def)
qed

lemma step_flags: "flags_exclusive (outfits s) \<Longrightarrow> flags_exclusive (outfits (step e s))"
  by (cases e)
    (simp_all add: onLeft_flags onRight_flags undo_flags tick_outfits goNext_def onItemPress_def)

lemma run_flags: "flags_exclusive (outfits s) \<Longrightarrow> flags_exclusive (outfits (run es s))"
  by (induction es arbitrary: s) (simp_all add: step_flags)

lemma onLeft_nth:
  "j < length (outfits s) \<Longrightarrow>
     outfits (onLeft s) ! j = outfits s ! j \<or>
     (isRejected (outfits (onLeft s) ! j) = Some True \<and>
      isAccepted (outfits (onLeft s) ! j) = Some False)"
  by (simp add: onLeft_def split: option.splits)

lemma onRight_nth:
  "j < length (outfits s) \<Longrightarrow>
     outfits (onRight s) ! j = outfits s ! j \<or>
     (isAccepted (outfits (onRight s) ! j) = Some True \<and>
      isRejected (outfits (onRight s) ! j) = Some False)"
  by (simp add: onRight_def split: option.splits)

lemma undo_nth:
  "j < length (outfits s) \<Longrightarrow>
     outfits (undo s) ! j = outfits s ! j \<or>
     (isAccepted (outfits (undo s) ! j) = Some False \<and>
      isRejected (outfits (undo s) ! j) = Some False)"
  by (simp add: undo_def Let_def nth_map_idx split: option.splits)

subsection \<open>The null-checks are reached with the guard clear\<close>

lemma goNext_guard: "guard_in_range n s \<Longrightarrow> guard_in_range n (goNext s)"
  by (auto simp: guard_in_range_def goNext_def)

lemma onLeft_guard: "guard_in_range n s \<Longrightarrow> guard_in_range n (onLeft s)"
  by (auto simp: guard_in_range_def onLeft_def js_index_Some_iff split: option.splits)

lemma onRight_guard: "guard_in_range n s \<Longrightarrow> guard_in_range n (onRight s)"
  by (auto simp: guard_in_range_def onRight_def js_index_Some_iff split: option.splits)

lemma undo_guard:
  assumes "guard_in_range n s"
  shows "guard_in_range n (undo s)"
proof (cases "history s = [] \<or> isProcessing s")
  case True
  with assms show ?thesis by (simp add: undo_def)
next
  case False
  from assms have "list_all (\<lambda>h. 0 \<le> index h \<and> index h < int n) (butlast (history s))"
    by (simp add: guard_in_range_def list_all_butlast)
  with assms False show ?thesis
    by (auto simp: guard_in_range_def undo_def Let_def length_map_idx js_index_Some_iff
        split: option.splits)
qed

lemma onItemPress_guard: "guard_in_range n s \<Longrightarrow> guard_in_range n (onItemPress i s)"
  by (simp add: guard_in_range_def onItemPress_def)

lemma tick_guard:
  assumes "guard_in_range n s"
  shows "guard_in_range n (tick s)"
proof (cases "timers s")
  case Nil
  with assms show ?thesis by (simp add: tick_def)
next
  case (Cons t ts)
  with assms show ?thesis
    by (cases t) (simp_all add: tick_def guard_in_range_def goNext_def)
qed

lemma step_guard: "guard_in_range n s \<Longrightarrow> guard_in_range n (step e s)"
  by (cases e)
    (simp_all add: goNext_guard onLeft_guard onRight_guard undo_guard onItemPress_guard
      tick_guard)

lemma run_guard: "guard_in_range n s \<Longrightarrow> guard_in_range n (run es s)"
  by (induction es arbitrary: s) (simp_all add: step_guard)

lemma reachable_guard: "guard_in_range (length outs) (run es (init outs acc))"
proof (rule run_guard)
  show "guard_in_range (length outs) (init outs acc)"
    by (simp add: guard_in_range_def init_def)
qed

lemma null_check_clear:
  assumes "\<not> isProcessing s"
  shows "(js_index (outfits s) (activeIndex s) = None \<longrightarrow>
            frame_unchanged s (onLeft s) \<and> \<not> isProcessing (onLeft s) \<and>
            timers (onLeft s) = timers s \<and>
            frame_unchanged s (onRight s) \<and> \<not> isProcessing (onRight s) \<and>
            timers (onRight s) = timers s) \<and>
         (history s \<noteq> [] \<and> js_index (outfits s) (index (last (history s))) = None \<longrightarrow>
            frame_unchanged s (undo s) \<and> \<not> isProcessing (undo s) \<and>
            timers (undo s) = timers s)"
  using assms by (simp add: frame_unchanged_def onLeft_def onRight_def undo_def Let_def)

subsection \<open>Rounding and the threshold\<close>

text \<open>The logarithm is unfolded by evaluation only.\<close>

declare log2n.simps [simp del]

text \<open>
  The exponent brackets its argument, and a finite result of the rounding lies within
  half the spacing of what was rounded.
\<close>

lemma log2n_spec:
  "1 \<le> n \<Longrightarrow> 0 \<le> log2n n \<and> 2 ^ nat (log2n n) \<le> n \<and> n < 2 * 2 ^ nat (log2n n)"
proof (induction n rule: log2n.induct)
  case (1 n)
  show ?case
  proof (cases "n < 2")
    case True
    with "1.prems" show ?thesis by (simp add: log2n.simps)
  next
    case False
    then have h: "1 \<le> n div 2" by simp
    from "1.IH" [OF False h] have k: "0 \<le> log2n (n div 2)"
      and lo: "2 ^ nat (log2n (n div 2)) \<le> n div 2"
      and hi: "n div 2 < 2 * 2 ^ nat (log2n (n div 2))"
      by simp_all
    from False have e: "log2n n = 1 + log2n (n div 2)" by (simp add: log2n.simps)
    from k have p: "(2::int) ^ nat (1 + log2n (n div 2)) = 2 * 2 ^ nat (log2n (n div 2))"
      by (simp add: nat_add_distrib)
    from lo hi k show ?thesis unfolding e p by auto
  qed
qed

lemma ilog2_spec:
  assumes "0 < a"
  shows "power_int 2 (ilog2 a) \<le> a \<and> a < power_int 2 (ilog2 a + 1)"
proof -
  obtain p q where pq: "quotient_of a = (p, q)" by (cases "quotient_of a")
  then have q: "0 < q" by (rule quotient_of_denom_pos)
  from pq have a: "a = of_int p / of_int q" by (rule quotient_of_div)
  with assms q have p: "0 < p" by (simp add: zero_less_divide_iff)
  define k m where "k = log2n p" and "m = log2n q"
  from p q log2n_spec [of p] log2n_spec [of q]
  have k: "0 \<le> k" "2 ^ nat k \<le> p" "p < 2 * 2 ^ nat k"
    and m: "0 \<le> m" "2 ^ nat m \<le> q" "q < 2 * 2 ^ nat m"
    by (simp_all add: k_def m_def)
  have pw: "power_int (2::rat) k = 2 ^ nat k" "power_int (2::rat) m = 2 ^ nat m"
    using k(1) m(1) by (simp_all add: power_int_def)
  from k(2) have "(of_int (2 ^ nat k) :: rat) \<le> of_int p" by (simp only: of_int_le_iff)
  then have pk_lo: "power_int 2 k \<le> (of_int p :: rat)" by (simp add: pw)
  from k(3) have "(of_int p :: rat) < of_int (2 * 2 ^ nat k)" by (simp only: of_int_less_iff)
  then have pk_hi: "(of_int p :: rat) < 2 * power_int 2 k" by (simp add: pw)
  from m(2) have "(of_int (2 ^ nat m) :: rat) \<le> of_int q" by (simp only: of_int_le_iff)
  then have qm_lo: "power_int 2 m \<le> (of_int q :: rat)" by (simp add: pw)
  from m(3) have "(of_int q :: rat) < of_int (2 * 2 ^ nat m)" by (simp only: of_int_less_iff)
  then have qm_hi: "(of_int q :: rat) < 2 * power_int 2 m" by (simp add: pw)
  have pos_k: "0 < power_int (2::rat) k" and pos_m: "0 < power_int (2::rat) m"
    by (rule zero_less_power_int, simp)+
  have P: "0 < (of_int p :: rat)" and Q: "0 < (of_int q :: rat)" using p q by simp_all
  have X: "power_int (2::rat) (k - m + 1) = 2 * power_int 2 k / power_int 2 m"
    by (simp add: power_int_add power_int_diff)
  have Y: "power_int (2::rat) (k - m - 1) = power_int 2 k / (2 * power_int 2 m)"
    by (simp add: power_int_diff)
  have Z: "power_int (2::rat) (k - m) = power_int 2 k / power_int 2 m"
    by (simp add: power_int_diff)
  have "of_int p * power_int 2 m \<le> (of_int p :: rat) * of_int q"
    using qm_lo P by (simp add: mult_left_mono)
  also have "\<dots> < 2 * power_int 2 k * of_int q"
    using pk_hi Q by (simp add: mult_strict_right_mono)
  finally have "of_int p / of_int q < 2 * power_int 2 k / power_int (2::rat) m"
    using Q pos_m by (simp add: field_simps)
  then have up: "a < power_int 2 (k - m + 1)" by (simp add: a X)
  have "power_int 2 k * of_int q \<le> (of_int p :: rat) * of_int q"
    using pk_lo Q by (simp add: mult_right_mono)
  also have "\<dots> \<le> of_int p * (2 * power_int 2 m)"
    using qm_hi P by (simp add: mult_left_mono)
  finally have "power_int 2 k / (2 * power_int (2::rat) m) \<le> of_int p / of_int q"
    using Q pos_m by (simp add: field_simps)
  then have dn: "power_int 2 (k - m - 1) \<le> a" by (simp add: a Y)
  have e: "ilog2 a = (if power_int 2 (k - m) \<le> a then k - m else k - m - 1)"
    by (simp add: ilog2_def pq k_def m_def)
  show ?thesis
  proof (cases "power_int 2 (k - m) \<le> a")
    case True
    with up e show ?thesis by simp
  next
    case False
    then have "a < power_int 2 (k - m - 1 + 1)" by simp
    with False dn e show ?thesis by simp
  qed
qed


lemma round_half_even_near: "\<bar>of_int (round_half_even q) - q\<bar> \<le> 1 / 2"
proof -
  have "of_int \<lfloor>q\<rfloor> \<le> q" and "q < of_int \<lfloor>q\<rfloor> + 1" by linarith+
  then show ?thesis by (auto simp: round_half_even_def Let_def)
qed

lemma round64_near:
  assumes "round64 x = Finite r"
  shows "\<bar>r - x\<bar> \<le> power_int 2 (max (ilog2 \<bar>x\<bar>) (- 1022) - 52) / 2"
proof (cases "x = 0")
  case True
  with assms show ?thesis by (simp add: round64_def)
next
  case False
  define u :: rat where "u = power_int 2 (max (ilog2 \<bar>x\<bar>) (- 1022) - 52)"
  define n where "n = round_half_even (\<bar>x\<bar> / u)"
  have u: "0 < u" unfolding u_def by (rule zero_less_power_int) simp
  from assms False have r: "r = (if 0 < x then of_int n * u else - (of_int n * u))"
    unfolding round64_def Let_def u_def [symmetric] n_def [symmetric]
    by (simp split: if_splits)
  have "\<bar>of_int n - \<bar>x\<bar> / u\<bar> \<le> 1 / 2" unfolding n_def by (rule round_half_even_near)
  then have "\<bar>of_int n - \<bar>x\<bar> / u\<bar> * u \<le> 1 / 2 * u" using u by (simp only: mult_le_cancel_right_pos)
  moreover have "\<bar>of_int n - \<bar>x\<bar> / u\<bar> * u = \<bar>(of_int n - \<bar>x\<bar> / u) * u\<bar>"
    using u by (simp add: abs_mult_pos)
  moreover have "(of_int n - \<bar>x\<bar> / u) * u = of_int n * u - \<bar>x\<bar>"
    using u by (simp add: left_diff_distrib)
  ultimately have near: "\<bar>of_int n * u - \<bar>x\<bar>\<bar> \<le> u / 2" by simp
  show ?thesis
  proof (cases "0 < x")
    case True
    with near r show ?thesis unfolding u_def [symmetric] by simp
  next
    case neg: False
    with r have "r - x = - (of_int n * u - \<bar>x\<bar>)" by simp
    then have "\<bar>r - x\<bar> = \<bar>of_int n * u - \<bar>x\<bar>\<bar>" by (simp only: abs_minus_cancel)
    with near show ?thesis unfolding u_def [symmetric] by simp
  qed
qed

lemma round_half_even_nonneg: "0 \<le> q \<Longrightarrow> 0 \<le> round_half_even q"
  by (auto simp: round_half_even_def Let_def)

lemma round64_nonneg:
  assumes "0 \<le> x"
  shows "\<not> js_lt (round64 x) (Finite 0)"
proof (cases "x = 0")
  case True
  then show ?thesis by (simp add: round64_def)
next
  case False
  with assms have pos: "0 < x" by simp
  define u :: rat where "u = power_int 2 (max (ilog2 \<bar>x\<bar>) (- 1022) - 52)"
  have u: "0 < u" unfolding u_def by (rule zero_less_power_int) simp
  with pos have "0 \<le> \<bar>x\<bar> / u" by simp
  then have "0 \<le> round_half_even (\<bar>x\<bar> / u)" by (rule round_half_even_nonneg)
  with u have "0 \<le> of_int (round_half_even (\<bar>x\<bar> / u)) * u" by simp
  with pos show ?thesis
    unfolding u_def by (simp add: round64_def Let_def)
qed

lemma lit_026: "lit (26 / 100) = Finite (1170935903116329 / 4503599627370496)"
  by code_simp

lemma lit_026_reduced: "lit (13 / 50) = Finite (1170935903116329 / 4503599627370496)"
  using lit_026 by simp

lemma threshold_nonneg:
  assumes "\<not> js_lt w (Finite 0)"
  shows "\<not> js_lt (SWIPE_THRESHOLD w) (Finite 0)"
proof (cases w)
  case (Finite x)
  with assms have "0 \<le> x * (1170935903116329 / 4503599627370496)" by simp
  then have "\<not> js_lt (round64 (x * (1170935903116329 / 4503599627370496))) (Finite 0)"
    by (rule round64_nonneg)
  with Finite show ?thesis by (simp add: SWIPE_THRESHOLD_def lit_026_reduced)
next
  case PosInf
  then show ?thesis by (simp add: SWIPE_THRESHOLD_def lit_026_reduced)
next
  case NegInf
  with assms show ?thesis by simp
next
  case NaN
  then show ?thesis by (simp add: SWIPE_THRESHOLD_def)
qed

lemma not_left_and_right:
  "\<not> js_lt t (Finite 0) \<Longrightarrow> js_lt dx (js_neg t) \<Longrightarrow> \<not> js_lt t dx"
  by (cases t; cases dx) auto

lemma commit_starts:
  "parallel_start [Timing v1 x1 d1, Timing v2 x2 d2, Timing v3 x3 d3] cb
     = \<lparr>started = [Timing v1 x1 d1, Timing v2 x2 d2, Timing v3 x3 d3], completion = cb,
        raised = None\<rparr>"
  by (simp add: parallel_start_def)

lemma spring_back_raises:
  "parallel_start
     [Spring TranslateX (Finite 0) [Damping, Stiffness, Tension],
      Spring TranslateY (Finite 0) [Damping, Stiffness, Tension],
      Timing LikeOpacity (Finite 0) 200, Timing NopeOpacity (Finite 0) 200] None
     = \<lparr>started = [], completion = None, raised = Some InvariantViolation\<rparr>"
  by (simp add: parallel_start_def spring_config_ok_def)

lemma threshold_360:
  "SWIPE_THRESHOLD (Finite 360) = Finite (6586514455029351 / 70368744177664)"
  by code_simp

subsection \<open>The loop of the carousel\<close>

text \<open>The loop is unfolded by hand, where the proof says so.\<close>

declare visible_loop.simps [simp del]

lemma visible_loop_upto: "visible_loop i fin idxs = idxs @ [i..fin]"
proof (induction i fin idxs rule: visible_loop.induct)
  case (1 i fin idxs)
  show ?case
  proof (cases "i \<le> fin")
    case True
    then have "[i..fin] = i # [i + 1..fin]" by (simp add: upto_rec1)
    with True "1.IH" show ?thesis by (subst visible_loop.simps) simp
  next
    case False
    then show ?thesis by (subst visible_loop.simps) simp
  qed
qed

lemma visible_upto:
  "visible items a = [max 0 (a - 4)..min (int (length items) - 1) (a + 4)]"
  by (simp add: visible_def visibleRange_def visible_loop_upto)

lemma filter_eq_upto:
  assumes "l \<le> a" and "a \<le> u"
  shows "filter (\<lambda>i. i = a) [l..u] = [a]"
proof -
  have "[l..u] = [l..a - 1] @ a # [a + 1..u]"
    using assms by (simp add: upto_split3)
  moreover have "filter (\<lambda>i. i = a) [l..a - 1] = []" by (auto simp: filter_empty_conv)
  moreover have "filter (\<lambda>i. i = a) [a + 1..u] = []" by (auto simp: filter_empty_conv)
  ultimately show ?thesis by simp
qed

lemma opacity_of_mono: "0 \<le> d1 \<Longrightarrow> d1 \<le> d2 \<Longrightarrow> opacity_of d2 \<le> opacity_of d1"
  by (auto simp: opacity_of_def)

subsection \<open>The store keeps ids apart\<close>

lemma addAccepted_distinct:
  "distinct (map id_field cur) \<Longrightarrow> distinct (map id_field (addAccepted outfit cur))"
  by (auto simp: addAccepted_def list_ex_iff)

lemma removeAccepted_distinct:
  "distinct (map id_field cur) \<Longrightarrow> distinct (map id_field (removeAccepted i cur))"
  by (simp add: removeAccepted_def distinct_map_filter)

lemma store_step_distinct:
  "distinct (map id_field cur) \<Longrightarrow> distinct (map id_field (store_step c cur))"
  by (cases c) (simp_all add: addAccepted_distinct removeAccepted_distinct clearAll_def)

lemma store_run_distinct:
  "distinct (map id_field cur) \<Longrightarrow> distinct (map id_field (store_run cs cur))"
  by (induction cs arbitrary: cur) (simp_all add: store_step_distinct)

subsection \<open>The concrete runs, evaluated\<close>

lemma mock_length: "length mockOutfits = 8"
  by (simp add: mockOutfits_def)

lemmas screen_defs =
  init_def onLeft_def onRight_def undo_def tick_def goNext_def onItemPress_def js_index_def
  addAccepted_def removeAccepted_def Let_def

lemma revisited_state:
  "revisited =
     \<lparr>outfits = mockOutfits[0 := (mockOutfits ! 0)\<lparr>isAccepted := Some True, isRejected := Some False\<rparr>],
      activeIndex = 0, history = [\<lparr>index = 0, action = ActRight\<rparr>], isProcessing = False,
      accepted = [mockOutfits ! 0], timers = []\<rparr>"
  by (simp add: revisited_def screen_defs mockOutfits_def mock_def)

lemma undone_once_state:
  "undone_once =
     \<lparr>outfits = mockOutfits[0 := (mockOutfits ! 0)\<lparr>isAccepted := Some False, isRejected := Some False\<rparr>],
      activeIndex = 0, history = [], isProcessing = False, accepted = [], timers = []\<rparr>"
  by (simp add: undone_once_def screen_defs mockOutfits_def mock_def)

lemma in_flight_state:
  "in_flight =
     \<lparr>outfits = mockOutfits[0 := (mockOutfits ! 0)\<lparr>isRejected := Some True, isAccepted := Some False\<rparr>],
      activeIndex = 0, history = [\<lparr>index = 0, action = ActLeft\<rparr>], isProcessing = True,
      accepted = [], timers = [TransitionTimer]\<rparr>"
  by (simp add: in_flight_def screen_defs mockOutfits_def mock_def)

section \<open>Swiping: accept and reject\<close>

text \<open>
  Claim C1. In a state whose guard is clear and whose active index holds a suggestion,
  \<open>onRight\<close> leaves that suggestion at the active index with \<^verbatim>\<open>isAccepted = true\<close> and
  \<^verbatim>\<open>isRejected = false\<close>, appends \<^verbatim>\<open>{index: activeIndex, action: 'right'}\<close> to the
  history, and hands the suggestion to \<open>addAccepted\<close>: afterwards the collection holds a
  record of its id, which is the suggestion itself, put in front, when the id was new.
\<close>

theorem onRight_accepts:
  assumes guard: "\<not> isProcessing s"
    and cur: "js_index (outfits s) (activeIndex s) = Some current"
  shows "js_index (outfits (onRight s)) (activeIndex s)
           = Some (current\<lparr>isAccepted := Some True, isRejected := Some False\<rparr>) \<and>
         history (onRight s) = history s @ [\<lparr>index = activeIndex s, action = ActRight\<rparr>] \<and>
         accepted (onRight s) = addAccepted current (accepted s) \<and>
         list_ex (\<lambda>x. id_field x = id_field current) (accepted (onRight s)) \<and>
         (\<not> list_ex (\<lambda>x. id_field x = id_field current) (accepted s)
            \<longrightarrow> accepted (onRight s) = current # accepted s)"
proof -
  from cur have rng: "0 \<le> activeIndex s" "activeIndex s < int (length (outfits s))"
    and nth: "outfits s ! nat (activeIndex s) = current"
    by (simp_all add: js_index_Some_iff)
  from guard cur have acc: "accepted (onRight s) = addAccepted current (accepted s)"
    and hist: "history (onRight s) = history s @ [\<lparr>index = activeIndex s, action = ActRight\<rparr>]"
    and outs: "outfits (onRight s) =
        map (\<lambda>out. if id_field out = id_field current
                    then out\<lparr>isAccepted := Some True, isRejected := Some False\<rparr> else out)
          (outfits s)"
    by (simp_all add: onRight_def)
  from rng nth have "js_index (outfits (onRight s)) (activeIndex s)
           = Some (current\<lparr>isAccepted := Some True, isRejected := Some False\<rparr>)"
    by (simp add: outs js_index_def)
  moreover have "list_ex (\<lambda>x. id_field x = id_field current) (addAccepted current (accepted s))"
    by (simp add: addAccepted_def)
  moreover have "\<not> list_ex (\<lambda>x. id_field x = id_field current) (accepted s)
            \<longrightarrow> addAccepted current (accepted s) = current # accepted s"
    by (simp add: addAccepted_def)
  ultimately show ?thesis using acc hist by simp
qed

text \<open>The first swipe of a fresh screen, over an empty collection.\<close>

theorem onRight_accepts_witness:
  "\<not> isProcessing (init mockOutfits []) \<and>
   js_index (outfits (init mockOutfits [])) (activeIndex (init mockOutfits []))
     = Some (mockOutfits ! 0) \<and>
   js_index (outfits (onRight (init mockOutfits []))) 0
     = Some ((mockOutfits ! 0)\<lparr>isAccepted := Some True, isRejected := Some False\<rparr>) \<and>
   history (onRight (init mockOutfits [])) = [\<lparr>index = 0, action = ActRight\<rparr>] \<and>
   accepted (onRight (init mockOutfits [])) = [mockOutfits ! 0]"
proof -
  have g: "\<not> isProcessing (init mockOutfits [])"
    by (simp add: init_def)
  have c: "js_index (outfits (init mockOutfits [])) (activeIndex (init mockOutfits []))
             = Some (mockOutfits ! 0)"
    by (simp add: init_def js_index_def mock_length)
  from onRight_accepts [OF g c] g c show ?thesis
    by (simp add: init_def addAccepted_def)
qed

text \<open>
  Claim C2. In a state whose guard is clear and whose active index holds a suggestion,
  \<open>onLeft\<close> leaves that suggestion at the active index with \<^verbatim>\<open>isRejected = true\<close> and
  \<^verbatim>\<open>isAccepted = false\<close>, appends \<^verbatim>\<open>{index: activeIndex, action: 'left'}\<close> to the
  history, and does not touch the persisted collection.
\<close>

theorem onLeft_rejects:
  assumes guard: "\<not> isProcessing s"
    and cur: "js_index (outfits s) (activeIndex s) = Some current"
  shows "js_index (outfits (onLeft s)) (activeIndex s)
           = Some (current\<lparr>isRejected := Some True, isAccepted := Some False\<rparr>) \<and>
         history (onLeft s) = history s @ [\<lparr>index = activeIndex s, action = ActLeft\<rparr>] \<and>
         accepted (onLeft s) = accepted s"
proof -
  from cur have rng: "0 \<le> activeIndex s" "activeIndex s < int (length (outfits s))"
    and nth: "outfits s ! nat (activeIndex s) = current"
    by (simp_all add: js_index_Some_iff)
  from guard cur have st: "onLeft s =
     s\<lparr>outfits :=
               map (\<lambda>out. if id_field out = id_field current
                         then out\<lparr>isRejected := Some True, isAccepted := Some False\<rparr> else out)
                 (outfits s),
            history := history s @ [\<lparr>index = activeIndex s, action = ActLeft\<rparr>],
            isProcessing := True,
            timers := timers s @ [TransitionTimer]\<rparr>"
    by (simp add: onLeft_def)
  show ?thesis
    unfolding st using rng nth by (simp add: js_index_def)
qed

text \<open>A left swipe on a suggestion that was accepted before: it stays in the collection.\<close>

theorem onLeft_rejects_witness:
  "\<not> isProcessing revisited \<and>
   js_index (outfits revisited) (activeIndex revisited)
     = Some ((mockOutfits ! 0)\<lparr>isAccepted := Some True, isRejected := Some False\<rparr>) \<and>
   js_index (outfits (onLeft revisited)) 0
     = Some ((mockOutfits ! 0)\<lparr>isAccepted := Some False, isRejected := Some True\<rparr>) \<and>
   history (onLeft revisited)
     = [\<lparr>index = 0, action = ActRight\<rparr>, \<lparr>index = 0, action = ActLeft\<rparr>] \<and>
   accepted (onLeft revisited) = [mockOutfits ! 0]"
proof -
  have g: "\<not> isProcessing revisited"
    by (simp add: revisited_state)
  have c: "js_index (outfits revisited) (activeIndex revisited)
     = Some ((mockOutfits ! 0)\<lparr>isAccepted := Some True, isRejected := Some False\<rparr>)"
    by (simp add: revisited_state js_index_def mock_length)
  from onLeft_rejects [OF g c] g c show ?thesis
    by (simp add: revisited_state)
qed

section \<open>Undo\<close>

text \<open>
  Claim C3, as amended. \<open>undo\<close> on an empty history changes nothing. In a state with the
  guard clear, nothing pending, pairwise different ids and a suggestion at the active
  index: a swipe (\<open>onLeft\<close> or \<open>onRight\<close>), its timeout, and then \<open>undo\<close> give back the
  active index and the history; they give back the persisted collection after \<open>onLeft\<close>,
  and after \<open>onRight\<close> when the suggestion's id was not in it before; and they give the
  suggestions as they were but for the swiped one, whose two flags are now an explicit
  \<^verbatim>\<open>false\<close>, so the array is the old one exactly when both flags were \<^verbatim>\<open>false\<close> before.
\<close>

theorem undo_reverts_last_action:
  "(history s = [] \<longrightarrow> undo s = s) \<and>
   (\<not> isProcessing s \<and> timers s = [] \<and> distinct (map id_field (outfits s)) \<and>
    js_index (outfits s) (activeIndex s) = Some current \<longrightarrow>
      activeIndex (undo (tick (onLeft s))) = activeIndex s \<and>
      history (undo (tick (onLeft s))) = history s \<and>
      accepted (undo (tick (onLeft s))) = accepted s \<and>
      outfits (undo (tick (onLeft s)))
        = (outfits s)[nat (activeIndex s) := current\<lparr>isAccepted := Some False, isRejected := Some False\<rparr>] \<and>
      activeIndex (undo (tick (onRight s))) = activeIndex s \<and>
      history (undo (tick (onRight s))) = history s \<and>
      (\<not> list_ex (\<lambda>x. id_field x = id_field current) (accepted s) \<longrightarrow>
         accepted (undo (tick (onRight s))) = accepted s) \<and>
      outfits (undo (tick (onRight s)))
        = (outfits s)[nat (activeIndex s) := current\<lparr>isAccepted := Some False, isRejected := Some False\<rparr>] \<and>
      (isAccepted current = Some False \<and> isRejected current = Some False \<longrightarrow>
         outfits (undo (tick (onLeft s))) = outfits s \<and>
         outfits (undo (tick (onRight s))) = outfits s))"
proof (intro conjI impI)
  assume "history s = []"
  then show "undo s = s" by (simp add: undo_def)
next
  assume pre: "\<not> isProcessing s \<and> timers s = [] \<and> distinct (map id_field (outfits s)) \<and>
    js_index (outfits s) (activeIndex s) = Some current"
  define xs a h acc where "xs = outfits s" and "a = activeIndex s" and "h = history s"
    and "acc = accepted s"
  from pre have s: "s = \<lparr>outfits = xs, activeIndex = a, history = h, isProcessing = False,
      accepted = acc, timers = []\<rparr>"
    by (simp add: xs_def a_def h_def acc_def)
  from pre have d: "distinct (map id_field xs)" and rng: "0 \<le> a" "a < int (length xs)"
    and cur: "xs ! nat a = current"
    by (simp_all add: xs_def a_def js_index_Some_iff)
  let ?k = "nat a"
  have k: "?k < length xs" using rng by simp
  have rng_l: "a < int (length (xs[?k := current\<lparr>isRejected := Some True, isAccepted := Some False\<rparr>]))"
    and rng_r: "a < int (length (xs[?k := current\<lparr>isAccepted := Some True, isRejected := Some False\<rparr>]))"
    using rng by simp_all
  have left: "undo (tick (onLeft s)) =
      \<lparr>outfits = xs[?k := current\<lparr>isAccepted := Some False, isRejected := Some False\<rparr>],
       activeIndex = a, history = h, isProcessing = True, accepted = acc, timers = [UndoTimer]\<rparr>"
    using k by (simp add: s onLeft_unique_ids [OF d rng] cur tick_transition
        undo_after_swipe [OF rng(1) rng_l])
  have right: "undo (tick (onRight s)) =
      \<lparr>outfits = xs[?k := current\<lparr>isAccepted := Some False, isRejected := Some False\<rparr>],
       activeIndex = a, history = h, isProcessing = True,
       accepted = removeAccepted (id_field current) (addAccepted current acc),
       timers = [UndoTimer]\<rparr>"
    using k by (simp add: s onRight_unique_ids [OF d rng] cur tick_transition
        undo_after_swipe [OF rng(1) rng_r])
  have fresh: "removeAccepted (id_field current) (addAccepted current acc) = acc"
    if "\<not> list_ex (\<lambda>x. id_field x = id_field current) acc"
    using that removeAccepted_fresh [of "id_field current" acc]
    by (simp add: addAccepted_def) (simp add: removeAccepted_def)
  have same: "xs[?k := current\<lparr>isAccepted := Some False, isRejected := Some False\<rparr>] = xs"
    if "isAccepted current = Some False \<and> isRejected current = Some False"
  proof -
    from that have "current\<lparr>isAccepted := Some False, isRejected := Some False\<rparr> = current"
      by simp
    moreover have "xs[?k := xs ! ?k] = xs" by (rule list_update_id)
    ultimately show ?thesis using cur by simp
  qed
  show "activeIndex (undo (tick (onLeft s))) = activeIndex s" by (simp add: left a_def)
  show "history (undo (tick (onLeft s))) = history s" by (simp add: left h_def)
  show "accepted (undo (tick (onLeft s))) = accepted s" by (simp add: left acc_def)
  show "outfits (undo (tick (onLeft s)))
        = (outfits s)[nat (activeIndex s) := current\<lparr>isAccepted := Some False, isRejected := Some False\<rparr>]"
    by (simp add: left xs_def a_def)
  show "activeIndex (undo (tick (onRight s))) = activeIndex s" by (simp add: right a_def)
  show "history (undo (tick (onRight s))) = history s" by (simp add: right h_def)
  show "accepted (undo (tick (onRight s))) = accepted s"
    if "\<not> list_ex (\<lambda>x. id_field x = id_field current) (accepted s)"
    using that fresh by (simp add: right acc_def)
  show "outfits (undo (tick (onRight s)))
        = (outfits s)[nat (activeIndex s) := current\<lparr>isAccepted := Some False, isRejected := Some False\<rparr>]"
    by (simp add: right xs_def a_def)
  show "outfits (undo (tick (onLeft s))) = outfits s"
    if "isAccepted current = Some False \<and> isRejected current = Some False"
    using same [OF that] by (simp add: left xs_def)
  show "outfits (undo (tick (onRight s))) = outfits s"
    if "isAccepted current = Some False \<and> isRejected current = Some False"
    using same [OF that] by (simp add: right xs_def)
qed

text \<open>
  The claim as stated (every state, all four components restored) fails on a run of the
  screen itself: the first suggestion is accepted, revisited through the carousel and
  accepted again. \<open>undo\<close> after the timeout then removes it from the collection, where it
  was before the second swipe, and clears the \<^verbatim>\<open>isAccepted\<close> flag it had; \<open>undo\<close> before
  the timeout is held off by the guard and leaves the new history entry in place.
\<close>

theorem undo_restores_counterexample:
  "\<not> isProcessing revisited \<and>
   js_index (outfits revisited) (activeIndex revisited) = Some (hd (outfits revisited)) \<and>
   accepted (undo (tick (onRight revisited))) \<noteq> accepted revisited \<and>
   outfits (undo (tick (onRight revisited))) \<noteq> outfits revisited \<and>
   history (undo (onRight revisited)) \<noteq> history revisited"
  by (simp add: revisited_state screen_defs mockOutfits_def mock_def)

text \<open>A swipe on a suggestion whose flags are both \<^verbatim>\<open>false\<close>, undone.\<close>

theorem undo_reverts_last_action_witness:
  "history undone_once = [] \<and> undo undone_once = undone_once \<and>
   \<not> isProcessing undone_once \<and> timers undone_once = [] \<and>
   distinct (map id_field (outfits undone_once)) \<and>
   js_index (outfits undone_once) (activeIndex undone_once)
     = Some ((mockOutfits ! 0)\<lparr>isAccepted := Some False, isRejected := Some False\<rparr>) \<and>
   \<not> list_ex (\<lambda>x. id_field x = id_field (mockOutfits ! 0)) (accepted undone_once) \<and>
   activeIndex (undo (tick (onLeft undone_once))) = activeIndex undone_once \<and>
   history (undo (tick (onLeft undone_once))) = history undone_once \<and>
   accepted (undo (tick (onLeft undone_once))) = accepted undone_once \<and>
   outfits (undo (tick (onLeft undone_once))) = outfits undone_once \<and>
   activeIndex (undo (tick (onRight undone_once))) = activeIndex undone_once \<and>
   history (undo (tick (onRight undone_once))) = history undone_once \<and>
   accepted (undo (tick (onRight undone_once))) = accepted undone_once \<and>
   outfits (undo (tick (onRight undone_once))) = outfits undone_once"
proof -
  let ?cur = "(mockOutfits ! 0)\<lparr>isAccepted := Some False, isRejected := Some False\<rparr>"
  have h: "history undone_once = []" and g: "\<not> isProcessing undone_once"
    and t: "timers undone_once = []"
    by (simp_all add: undone_once_state)
  have d: "distinct (map id_field (outfits undone_once))"
    by (simp add: undone_once_state mockOutfits_def mock_def)
  have c: "js_index (outfits undone_once) (activeIndex undone_once) = Some ?cur"
    by (simp add: undone_once_state js_index_def mock_length)
  have n: "\<not> list_ex (\<lambda>x. id_field x = id_field ?cur) (accepted undone_once)"
    and n': "\<not> list_ex (\<lambda>x. id_field x = id_field (mockOutfits ! 0)) (accepted undone_once)"
    by (simp_all add: undone_once_state)
  have f: "isAccepted ?cur = Some False \<and> isRejected ?cur = Some False"
    by simp
  from undo_reverts_last_action [of undone_once ?cur] h g t d c n n' f show ?thesis
    by blast
qed

section \<open>Bounds of the indices\<close>

text \<open>
  Claim C4. From the first render over a non-empty array, after any sequence of
  \<open>onLeft\<close>, \<open>onRight\<close>, \<open>undo\<close>, \<open>goNext\<close>, timeouts and presses on thumbnails of indices
  inside the array, the array has kept its length, the active index lies in
  \<open>[0, length - 1]\<close>, and so does the index of every history entry.
\<close>

theorem index_within_bounds:
  assumes "outs \<noteq> []" and "list_all (press_in_range (length outs)) es"
  shows "length (outfits (run es (init outs acc))) = length outs \<and>
         0 \<le> activeIndex (run es (init outs acc)) \<and>
         activeIndex (run es (init outs acc)) < int (length outs) \<and>
         list_all (\<lambda>h. 0 \<le> index h \<and> index h < int (length outs))
           (history (run es (init outs acc)))"
proof -
  from assms(1) have "in_bounds (length outs) (init outs acc)"
    by (simp add: in_bounds_def init_def)
  from run_in_bounds [OF this assms(2)] show ?thesis
    by (simp add: in_bounds_def)
qed

theorem index_within_bounds_witness:
  "mockOutfits \<noteq> [] \<and> list_all (press_in_range (length mockOutfits)) session \<and>
   activeIndex (run session (init mockOutfits [])) = 1 \<and>
   history (run session (init mockOutfits []))
     = [\<lparr>index = 0, action = ActRight\<rparr>, \<lparr>index = 0, action = ActLeft\<rparr>] \<and>
   length (outfits (run session (init mockOutfits []))) = length mockOutfits \<and>
   0 \<le> activeIndex (run session (init mockOutfits [])) \<and>
   activeIndex (run session (init mockOutfits [])) < int (length mockOutfits) \<and>
   list_all (\<lambda>h. 0 \<le> index h \<and> index h < int (length mockOutfits))
     (history (run session (init mockOutfits [])))"
proof -
  have ne: "mockOutfits \<noteq> []"
    by (simp add: mockOutfits_def)
  have pr: "list_all (press_in_range (length mockOutfits)) session"
    by (simp add: session_def mock_length)
  have a: "activeIndex (run session (init mockOutfits [])) = 1"
    by (simp add: session_def screen_defs mockOutfits_def mock_def)
  have h: "history (run session (init mockOutfits []))
     = [\<lparr>index = 0, action = ActRight\<rparr>, \<lparr>index = 0, action = ActLeft\<rparr>]"
    by (simp add: session_def screen_defs mockOutfits_def mock_def)
  from index_within_bounds [OF ne pr, of "[]"] ne pr a h show ?thesis
    by blast
qed

section \<open>The release threshold\<close>

text \<open>
  Claim C5. Let \<open>T\<close> be the binary64 product \<^verbatim>\<open>SCREEN_WIDTH * 0.26\<close> of a screen width
  that is not negative. A release at horizontal displacement \<open>dx\<close> ends in the left-swipe
  callback exactly when \<open>dx < - T\<close> and in the right-swipe callback exactly when
  \<open>dx > T\<close>, and such a release raises nothing. In every other case, \<open>dx\<close> equal to \<open>T\<close> or
  to \<open>- T\<close> included, no callback is called; there the claim has the card spring back to
  the centre, and the code does not get that far: its first spring mixes \<^verbatim>\<open>tension\<close>
  with \<^verbatim>\<open>damping\<close> and \<^verbatim>\<open>stiffness\<close>, the start raises, and no animation runs.
\<close>

theorem release_threshold:
  assumes "\<not> js_lt w (Finite 0)"
  shows "SWIPE_THRESHOLD w = js_mul w (lit (26 / 100)) \<and>
         (completion (onPanResponderRelease w dx dy) = Some HandleSwipeLeft
            \<longleftrightarrow> js_lt dx (js_neg (js_mul w (lit (26 / 100))))) \<and>
         (completion (onPanResponderRelease w dx dy) = Some HandleSwipeRight
            \<longleftrightarrow> js_gt dx (js_mul w (lit (26 / 100)))) \<and>
         (js_lt dx (js_neg (js_mul w (lit (26 / 100)))) \<or> js_gt dx (js_mul w (lit (26 / 100)))
            \<longrightarrow> raised (onPanResponderRelease w dx dy) = None) \<and>
         (\<not> js_lt dx (js_neg (js_mul w (lit (26 / 100)))) \<and>
          \<not> js_gt dx (js_mul w (lit (26 / 100)))
            \<longrightarrow> onPanResponderRelease w dx dy
                  = \<lparr>started = [], completion = None, raised = Some InvariantViolation\<rparr>)"
proof -
  let ?T = "SWIPE_THRESHOLD w"
  have T: "?T = js_mul w (lit (26 / 100))" by (simp add: SWIPE_THRESHOLD_def)
  from assms have "\<not> js_lt ?T (Finite 0)" by (rule threshold_nonneg)
  then have excl: "js_lt dx (js_neg ?T) \<Longrightarrow> \<not> js_gt dx ?T"
    unfolding js_gt_def by (rule not_left_and_right)
  consider (left) "js_lt dx (js_neg ?T)"
    | (right) "\<not> js_lt dx (js_neg ?T) \<and> js_gt dx ?T"
    | (neither) "\<not> js_lt dx (js_neg ?T) \<and> \<not> js_gt dx ?T"
    by blast
  then have "(completion (onPanResponderRelease w dx dy) = Some HandleSwipeLeft
            \<longleftrightarrow> js_lt dx (js_neg ?T)) \<and>
         (completion (onPanResponderRelease w dx dy) = Some HandleSwipeRight
            \<longleftrightarrow> js_gt dx ?T) \<and>
         (js_lt dx (js_neg ?T) \<or> js_gt dx ?T
            \<longrightarrow> raised (onPanResponderRelease w dx dy) = None) \<and>
         (\<not> js_lt dx (js_neg ?T) \<and> \<not> js_gt dx ?T
            \<longrightarrow> onPanResponderRelease w dx dy
                  = \<lparr>started = [], completion = None, raised = Some InvariantViolation\<rparr>)"
  proof cases
    case left
    with excl show ?thesis
      by (simp add: onPanResponderRelease_def Let_def commit_starts)
  next
    case right
    then show ?thesis
      by (simp add: onPanResponderRelease_def Let_def commit_starts)
  next
    case neither
    then show ?thesis
      by (simp add: onPanResponderRelease_def Let_def spring_back_raises)
  qed
  with T show ?thesis by simp
qed

text \<open>
  On a screen 360 wide \<open>T\<close> is \<open>93.60000000000001\<close>, above the real product. Releases at
  \<open>10\<close> and at \<open>T\<close> itself raise; the next binary64 value above \<open>T\<close> commits to the right,
  \<open>-94\<close> to the left.
\<close>

theorem release_threshold_witness:
  "\<not> js_lt (Finite 360) (Finite 0) \<and>
   SWIPE_THRESHOLD (Finite 360) = Finite (6586514455029351 / 70368744177664) \<and>
   \<not> js_lt (Finite 10) (js_neg (js_mul (Finite 360) (lit (26 / 100)))) \<and>
   \<not> js_gt (Finite 10) (js_mul (Finite 360) (lit (26 / 100))) \<and>
   onPanResponderRelease (Finite 360) (Finite 10) (Finite 0)
     = \<lparr>started = [], completion = None, raised = Some InvariantViolation\<rparr> \<and>
   onPanResponderRelease (Finite 360) (Finite (6586514455029351 / 70368744177664)) (Finite 0)
     = \<lparr>started = [], completion = None, raised = Some InvariantViolation\<rparr> \<and>
   completion (onPanResponderRelease (Finite 360) (Finite (823314306878669 / 8796093022208)) (Finite 10))
     = Some HandleSwipeRight \<and>
   completion (onPanResponderRelease (Finite 360) (Finite (- 94)) (Finite 10))
     = Some HandleSwipeLeft"
proof -
  have w: "\<not> js_lt (Finite 360) (Finite 0)" by simp
  have T: "SWIPE_THRESHOLD (Finite 360) = Finite (6586514455029351 / 70368744177664)"
    by (rule threshold_360)
  then have T': "js_mul (Finite 360) (lit (26 / 100)) = Finite (6586514455029351 / 70368744177664)"
    unfolding SWIPE_THRESHOLD_def .
  have n: "\<not> js_lt (Finite 10) (js_neg (js_mul (Finite 360) (lit (26 / 100))))"
    "\<not> js_gt (Finite 10) (js_mul (Finite 360) (lit (26 / 100)))"
    unfolding T' js_gt_def by simp_all
  from release_threshold [OF w, of "Finite 10" "Finite 0"] n
  have small: "onPanResponderRelease (Finite 360) (Finite 10) (Finite 0)
     = \<lparr>started = [], completion = None, raised = Some InvariantViolation\<rparr>"
    by blast
  have "\<not> js_lt (Finite (6586514455029351 / 70368744177664)) (js_neg (js_mul (Finite 360) (lit (26 / 100))))"
    "\<not> js_gt (Finite (6586514455029351 / 70368744177664)) (js_mul (Finite 360) (lit (26 / 100)))"
    unfolding T' js_gt_def by simp_all
  with release_threshold [OF w, of "Finite (6586514455029351 / 70368744177664)" "Finite 0"]
  have edge: "onPanResponderRelease (Finite 360) (Finite (6586514455029351 / 70368744177664)) (Finite 0)
     = \<lparr>started = [], completion = None, raised = Some InvariantViolation\<rparr>"
    by blast
  have "js_gt (Finite (823314306878669 / 8796093022208)) (js_mul (Finite 360) (lit (26 / 100)))"
    unfolding T' js_gt_def by simp
  with release_threshold [OF w, of "Finite (823314306878669 / 8796093022208)" "Finite 10"]
  have r: "completion (onPanResponderRelease (Finite 360) (Finite (823314306878669 / 8796093022208)) (Finite 10))
     = Some HandleSwipeRight"
    by blast
  have "js_lt (Finite (- 94)) (js_neg (js_mul (Finite 360) (lit (26 / 100))))"
    unfolding T' by simp
  with release_threshold [OF w, of "Finite (- 94)" "Finite 10"]
  have l: "completion (onPanResponderRelease (Finite 360) (Finite (- 94)) (Finite 10))
     = Some HandleSwipeLeft"
    by blast
  from w T n small edge r l show ?thesis by blast
qed

text \<open>The handler of an interrupted gesture, without \<^verbatim>\<open>tension\<close>, does spring back.\<close>

lemma terminate_springs_back:
  "onPanResponderTerminate =
     \<lparr>started = [Spring TranslateX (Finite 0) [Damping, Stiffness],
                  Spring TranslateY (Finite 0) [Damping, Stiffness]],
      completion = None, raised = None\<rparr>"
  by (simp add: onPanResponderTerminate_def parallel_start_def spring_config_ok_def)

section \<open>The window of the carousel\<close>

text \<open>
  Claim C6. For an active index inside the array of \<open>n\<close> items, the thumbnails shown are
  those of the indices \<open>max 0 (a - 4), ..., min (n - 1) (a + 4)\<close> in this order, at most nine;
  the opacity of a thumbnail is that of its distance from the active index, \<open>1\<close>,
  \<open>0.75\<close>, \<open>0.55\<close> and \<open>0.35\<close> at distance \<open>0\<close>, \<open>1\<close>, \<open>2\<close> and \<open>3\<close> or more, which never
  grows with the distance; and the active item is the one thumbnail with the ring, and
  the only one of the larger size.
\<close>

theorem carousel_window:
  assumes "0 \<le> a" and "a < int (length items)"
  shows "visible items a = [max 0 (a - 4)..min (int (length items) - 1) (a + 4)] \<and>
         length (visible items a) \<le> 9 \<and>
         map realIndex (ArcCarousel items a) = visible items a \<and>
         (\<forall>t \<in> set (ArcCarousel items a).
            opacity t = opacity_of \<bar>realIndex t - a\<bar> \<and>
            (ring t \<longleftrightarrow> realIndex t = a) \<and>
            thumb_size t = (if realIndex t = a then CENTER else THUMB)) \<and>
         filter ring (ArcCarousel items a) = [render_thumb a a] \<and>
         THUMB < CENTER \<and>
         opacity_of 0 = 1 \<and> opacity_of 1 = 0.75 \<and> opacity_of 2 = 0.55 \<and>
         (\<forall>d. 3 \<le> d \<longrightarrow> opacity_of d = 0.35) \<and>
         (\<forall>d1 d2. 0 \<le> d1 \<and> d1 \<le> d2 \<longrightarrow> opacity_of d2 \<le> opacity_of d1)"
proof -
  let ?l = "max 0 (a - 4)" and ?u = "min (int (length items) - 1) (a + 4)"
  have win: "visible items a = [?l..?u]" by (rule visible_upto)
  have len: "length (visible items a) \<le> 9" unfolding win by simp
  have idx: "map realIndex (ArcCarousel items a) = visible items a"
    by (simp add: ArcCarousel_def render_thumb_def Let_def comp_def)
  have each: "\<forall>t \<in> set (ArcCarousel items a).
            opacity t = opacity_of \<bar>realIndex t - a\<bar> \<and>
            (ring t \<longleftrightarrow> realIndex t = a) \<and>
            thumb_size t = (if realIndex t = a then CENTER else THUMB)"
    by (auto simp: ArcCarousel_def render_thumb_def Let_def)
  have "filter ring (ArcCarousel items a) = map (render_thumb a) (filter (\<lambda>i. i = a) [?l..?u])"
    unfolding ArcCarousel_def win filter_map
    by (simp add: comp_def render_thumb_def Let_def)
  also have "filter (\<lambda>i. i = a) [?l..?u] = [a]"
    using assms by (intro filter_eq_upto) simp_all
  finally have one: "filter ring (ArcCarousel items a) = [render_thumb a a]" by simp
  have vals: "THUMB < CENTER" "opacity_of 0 = 1" "opacity_of 1 = 0.75" "opacity_of 2 = 0.55"
    "\<forall>d. 3 \<le> d \<longrightarrow> opacity_of d = 0.35"
    by (simp_all add: THUMB_def CENTER_def opacity_of_def)
  have mono: "\<forall>d1 d2. 0 \<le> d1 \<and> d1 \<le> d2 \<longrightarrow> opacity_of d2 \<le> opacity_of d1"
    by (simp add: opacity_of_mono)
  from win len idx each one vals mono show ?thesis by blast
qed

theorem carousel_window_witness:
  "(0::int) \<le> 6 \<and> 6 < int (length mockOutfits) \<and>
   visible mockOutfits 6 = [2, 3, 4, 5, 6, 7] \<and>
   length (visible mockOutfits 6) \<le> 9 \<and>
   ArcCarousel mockOutfits 6 =
     [\<lparr>realIndex = 2, thumb_size = 52, opacity = 0.35, ring = False\<rparr>,
      \<lparr>realIndex = 3, thumb_size = 52, opacity = 0.35, ring = False\<rparr>,
      \<lparr>realIndex = 4, thumb_size = 52, opacity = 0.55, ring = False\<rparr>,
      \<lparr>realIndex = 5, thumb_size = 52, opacity = 0.75, ring = False\<rparr>,
      \<lparr>realIndex = 6, thumb_size = 70, opacity = 1, ring = True\<rparr>,
      \<lparr>realIndex = 7, thumb_size = 52, opacity = 0.75, ring = False\<rparr>] \<and>
   filter ring (ArcCarousel mockOutfits 6) = [render_thumb 6 6]"
proof -
  have lo: "(0::int) \<le> 6" by simp
  have hi: "6 < int (length mockOutfits)" by (simp add: mock_length)
  note w = carousel_window [OF lo hi]
  from w have v: "visible mockOutfits 6 = [2, 3, 4, 5, 6, 7]"
    by (simp add: mock_length upto_rec1)
  then have c: "ArcCarousel mockOutfits 6 =
     [\<lparr>realIndex = 2, thumb_size = 52, opacity = 0.35, ring = False\<rparr>,
      \<lparr>realIndex = 3, thumb_size = 52, opacity = 0.35, ring = False\<rparr>,
      \<lparr>realIndex = 4, thumb_size = 52, opacity = 0.55, ring = False\<rparr>,
      \<lparr>realIndex = 5, thumb_size = 52, opacity = 0.75, ring = False\<rparr>,
      \<lparr>realIndex = 6, thumb_size = 70, opacity = 1, ring = True\<rparr>,
      \<lparr>realIndex = 7, thumb_size = 52, opacity = 0.75, ring = False\<rparr>]"
    by (simp add: ArcCarousel_def render_thumb_def opacity_of_def THUMB_def CENTER_def)
  from w lo hi v c show ?thesis by blast
qed

section \<open>Uniqueness in the persisted collection\<close>

text \<open>
  Claim C7. After any sequence of \<open>addAccepted\<close>, \<open>removeAccepted\<close> and \<open>clearAll\<close> from the
  empty list, no two records of the collection have the same id; and \<open>addAccepted\<close> of a
  suggestion whose id is in the list returns the list as it was.
\<close>

theorem accepted_ids_unique:
  "distinct (map id_field (store_run cs [])) \<and>
   (list_ex (\<lambda>x. id_field x = id_field outfit) cur \<longrightarrow> addAccepted outfit cur = cur)"
proof
  have "distinct (map id_field ([] :: OutfitSuggestion list))" by simp
  then show "distinct (map id_field (store_run cs []))" by (rule store_run_distinct)
next
  show "list_ex (\<lambda>x. id_field x = id_field outfit) cur \<longrightarrow> addAccepted outfit cur = cur"
    by (simp add: addAccepted_def)
qed

theorem accepted_ids_unique_witness:
  "store_run store_session [] = [mockOutfits ! 2, mockOutfits ! 0] \<and>
   distinct (map id_field (store_run store_session [])) \<and>
   list_ex (\<lambda>x. id_field x = id_field (mockOutfits ! 0)) [mockOutfits ! 2, mockOutfits ! 0] \<and>
   addAccepted (mockOutfits ! 0) [mockOutfits ! 2, mockOutfits ! 0]
     = [mockOutfits ! 2, mockOutfits ! 0]"
proof -
  have r: "store_run store_session [] = [mockOutfits ! 2, mockOutfits ! 0]"
    by (simp add: store_session_def addAccepted_def removeAccepted_def mockOutfits_def mock_def)
  have p: "list_ex (\<lambda>x. id_field x = id_field (mockOutfits ! 0)) [mockOutfits ! 2, mockOutfits ! 0]"
    by simp
  from accepted_ids_unique [of store_session "mockOutfits ! 0" "[mockOutfits ! 2, mockOutfits ! 0]"]
    r p show ?thesis by simp
qed

section \<open>The guard\<close>

text \<open>
  Claim C8. While the guard is set, \<open>onLeft\<close>, \<open>onRight\<close>, \<open>undo\<close> and a press on a
  thumbnail leave the suggestions, the history, the active index and the persisted
  collection as they are.
\<close>

theorem debounce_guard:
  "isProcessing s \<Longrightarrow>
     frame_unchanged s (onLeft s) \<and> frame_unchanged s (onRight s) \<and>
     frame_unchanged s (undo s) \<and> frame_unchanged s (onItemPress i s)"
  by (simp add: frame_unchanged_def onLeft_def onRight_def undo_def onItemPress_def)

theorem debounce_guard_witness:
  "isProcessing in_flight \<and>
   frame_unchanged in_flight (onLeft in_flight) \<and>
   frame_unchanged in_flight (onRight in_flight) \<and>
   frame_unchanged in_flight (undo in_flight) \<and>
   frame_unchanged in_flight (onItemPress 3 in_flight) \<and>
   history in_flight = [\<lparr>index = 0, action = ActLeft\<rparr>]"
proof -
  have g: "isProcessing in_flight"
    by (simp add: in_flight_state)
  from debounce_guard [OF g, of 3] g show ?thesis
    by (simp add: in_flight_state)
qed

section \<open>Indices that hold no suggestion\<close>

text \<open>
  Claim C9. In a state that has the guard clear, or that the screen reaches from its
  first render (where a set guard comes with indices that hold a suggestion, so that the
  null-checks are met with the guard clear only): when the active index holds no
  suggestion, \<open>onLeft\<close> and \<open>onRight\<close> return with the suggestions, the history, the active
  index and the persisted collection as they were, with the guard clear and no timeout
  scheduled; and so does \<open>undo\<close> when the index of the last history entry holds none.
\<close>

theorem out_of_range_returns:
  assumes "\<not> isProcessing s \<or> s = run es (init outs acc)"
  shows "(js_index (outfits s) (activeIndex s) = None \<longrightarrow>
            frame_unchanged s (onLeft s) \<and> \<not> isProcessing (onLeft s) \<and>
            timers (onLeft s) = timers s \<and>
            frame_unchanged s (onRight s) \<and> \<not> isProcessing (onRight s) \<and>
            timers (onRight s) = timers s) \<and>
         (history s \<noteq> [] \<and> js_index (outfits s) (index (last (history s))) = None \<longrightarrow>
            frame_unchanged s (undo s) \<and> \<not> isProcessing (undo s) \<and>
            timers (undo s) = timers s)"
proof (cases "isProcessing s")
  case False
  then show ?thesis by (rule null_check_clear)
next
  case True
  with assms have "s = run es (init outs acc)" by simp
  then have inv: "guard_in_range (length outs) s" by (simp add: reachable_guard)
  with True have "js_index (outfits s) (activeIndex s) \<noteq> None"
    by (simp add: guard_in_range_def js_index_def)
  moreover have "js_index (outfits s) (index (last (history s))) \<noteq> None" if "history s \<noteq> []"
  proof -
    from that have "last (history s) \<in> set (history s)" by simp
    with inv show ?thesis by (simp add: guard_in_range_def list_all_iff js_index_def)
  qed
  ultimately show ?thesis by blast
qed

text \<open>
  A state with both indices past the end and the guard clear, and the screen over an
  empty array after \<open>goNext\<close>.
\<close>

theorem out_of_range_returns_witness:
  "\<not> isProcessing idle_outside \<and>
   js_index (outfits idle_outside) (activeIndex idle_outside) = None \<and>
   history idle_outside \<noteq> [] \<and>
   js_index (outfits idle_outside) (index (last (history idle_outside))) = None \<and>
   frame_unchanged idle_outside (onLeft idle_outside) \<and>
   \<not> isProcessing (onLeft idle_outside) \<and>
   frame_unchanged idle_outside (onRight idle_outside) \<and>
   \<not> isProcessing (onRight idle_outside) \<and>
   frame_unchanged idle_outside (undo idle_outside) \<and>
   \<not> isProcessing (undo idle_outside) \<and>
   empty_moved = run [GoNext] (init [] []) \<and>
   activeIndex empty_moved = - 1 \<and>
   js_index (outfits empty_moved) (activeIndex empty_moved) = None \<and>
   frame_unchanged empty_moved (onLeft empty_moved) \<and>
   \<not> isProcessing (onLeft empty_moved) \<and>
   frame_unchanged empty_moved (onRight empty_moved) \<and>
   \<not> isProcessing (onRight empty_moved)"
proof -
  have g: "\<not> isProcessing idle_outside"
    by (simp add: idle_outside_def)
  have a: "js_index (outfits idle_outside) (activeIndex idle_outside) = None"
    by (simp add: idle_outside_def js_index_def mock_length)
  have h: "history idle_outside \<noteq> []"
    by (simp add: idle_outside_def)
  have l: "js_index (outfits idle_outside) (index (last (history idle_outside))) = None"
    by (simp add: idle_outside_def js_index_def mock_length)
  have r: "empty_moved = run [GoNext] (init [] [])"
    by (simp add: empty_moved_def)
  have i: "activeIndex empty_moved = - 1"
    by (simp add: empty_moved_def init_def goNext_def)
  have n: "js_index (outfits empty_moved) (activeIndex empty_moved) = None"
    by (simp add: empty_moved_def init_def goNext_def js_index_def)
  from g have g': "\<not> isProcessing idle_outside \<or> idle_outside = run [] (init [] [])" ..
  from r have r': "\<not> isProcessing empty_moved \<or> empty_moved = run [GoNext] (init [] [])" ..
  from out_of_range_returns [OF g'] out_of_range_returns [OF r'] g a h l r i n
  show ?thesis by blast
qed

section \<open>Accepted and rejected exclude each other\<close>

text \<open>
  Claim C10. When no suggestion starts with both flags \<^verbatim>\<open>true\<close>, none has both
  \<^verbatim>\<open>true\<close> after any sequence of events of the screen. At every position of the array,
  \<open>onLeft\<close> leaves the suggestion as it was or makes it rejected and not accepted,
  \<open>onRight\<close> leaves it as it was or makes it accepted and not rejected, and \<open>undo\<close> leaves
  it as it was or gives both flags the value \<^verbatim>\<open>false\<close>.
\<close>

theorem flags_never_both:
  "(flags_exclusive outs \<longrightarrow> flags_exclusive (outfits (run es (init outs acc)))) \<and>
   (j < length (outfits s) \<longrightarrow>
      (outfits (onLeft s) ! j = outfits s ! j \<or>
       (isRejected (outfits (onLeft s) ! j) = Some True \<and>
        isAccepted (outfits (onLeft s) ! j) = Some False)) \<and>
      (outfits (onRight s) ! j = outfits s ! j \<or>
       (isAccepted (outfits (onRight s) ! j) = Some True \<and>
        isRejected (outfits (onRight s) ! j) = Some False)) \<and>
      (outfits (undo s) ! j = outfits s ! j \<or>
       (isAccepted (outfits (undo s) ! j) = Some False \<and>
        isRejected (outfits (undo s) ! j) = Some False)))"
proof (intro conjI impI)
  assume "flags_exclusive outs"
  then have "flags_exclusive (outfits (init outs acc))" by (simp add: init_def)
  then show "flags_exclusive (outfits (run es (init outs acc)))" by (rule run_flags)
qed (simp_all only: onLeft_nth onRight_nth undo_nth)

theorem flags_never_both_witness:
  "flags_exclusive mockOutfits \<and>
   flags_exclusive (outfits (run session (init mockOutfits []))) \<and>
   0 < length (outfits revisited) \<and>
   isAccepted (outfits revisited ! 0) = Some True \<and>
   isRejected (outfits (onLeft revisited) ! 0) = Some True \<and>
   isAccepted (outfits (onLeft revisited) ! 0) = Some False \<and>
   outfits (onRight revisited) ! 0 = outfits revisited ! 0 \<and>
   isAccepted (outfits (undo revisited) ! 0) = Some False \<and>
   isRejected (outfits (undo revisited) ! 0) = Some False"
proof -
  have m: "flags_exclusive mockOutfits"
    by (simp add: flags_exclusive_def mockOutfits_def mock_def)
  have l: "0 < length (outfits revisited)"
    by (simp add: revisited_state mock_length)
  have a: "isAccepted (outfits revisited ! 0) = Some True"
    by (simp add: revisited_state mock_length)
  have nl: "outfits (onLeft revisited) ! 0 \<noteq> outfits revisited ! 0"
    by (simp add: revisited_state onLeft_def js_index_def mockOutfits_def mock_def)
  have r: "outfits (onRight revisited) ! 0 = outfits revisited ! 0"
    by (simp add: revisited_state onRight_def js_index_def mockOutfits_def mock_def)
  have nu: "outfits (undo revisited) ! 0 \<noteq> outfits revisited ! 0"
    by (simp add: revisited_state undo_def js_index_def mockOutfits_def mock_def)
  from flags_never_both [of mockOutfits session "[]" 0 revisited] m l a nl r nu show ?thesis
    by blast
qed

end
